theory Spec2Isabelle
  imports Complex_Main "HOL-Library.Word" "HOL-Library.Log_Nat"
begin

unbundle bit_operations_syntax

section \<open>Data model\<close>

text \<open>
  JavaScript numbers are IEEE 754 doubles. They are modelled as reals, and the model
  is given in two readings. In the exact reading an arithmetic operation is the
  operation on reals. In the double-precision reading (section \<open>Double precision\<close>,
  definitions with the suffix \<open>_double\<close>) every arithmetic operation is followed by
  rounding to the nearest double; it is used where a property depends on a
  comparison of computed values. Infinities and NaN are not represented.
  Objects with identity (the point meshes) live in a store indexed by references;
  the point list, the triangles and the drawables hold references, so a point moved
  by the physics is seen by every triangle that refers to it.
\<close>

type_synonym ref = nat

text \<open>\<^verbatim>\<open>mesh.userData\<close> of a point: velocity and the position it was created at.\<close>

record user_data =
  vx :: real
  vy :: real
  origX :: real
  origY :: real

text \<open>
  A point mesh. \<^verbatim>\<open>position.z\<close> is set to 0 at creation and never read, so it
  is left out. \<open>userData = None\<close> stands for the emptied object
  \<^verbatim>\<open>{}\<close> that \<^verbatim>\<open>removePoint\<close> leaves behind.
\<close>

record mesh =
  position_x :: real
  position_y :: real
  userData :: "user_data option"

type_synonym heap = "ref \<Rightarrow> mesh"

datatype triangle = Triangle (p1: ref) (p2: ref) (p3: ref)

section \<open>Constants.js\<close>

definition MAX_POINTS :: nat where "MAX_POINTS = 30"
definition FRICTION :: real where "FRICTION = 9 / 10"
definition BOUNCE_FACTOR :: real where "BOUNCE_FACTOR = 1 / 2"
definition BROWNIAN_STRENGTH :: real where "BROWNIAN_STRENGTH = 2 / 10"
definition MAX_DISTANCE :: real where "MAX_DISTANCE = 5"
definition RETURN_FORCE :: real where "RETURN_FORCE = 1 / 10"
definition REPULSION_RADIUS :: real where "REPULSION_RADIUS = 100"
definition REPULSION_STRENGTH :: real where "REPULSION_STRENGTH = 5"

section \<open>Triangle\<close>

text \<open>
  \<^verbatim>\<open>Triangle.isPointInCircumcircle(p)\<close>, reading the vertices from the store, in
  the exact reading; \<open>isPointInCircumcircle_double\<close> below is the same function in
  double precision.
\<close>

definition isPointInCircumcircle :: "heap \<Rightarrow> triangle \<Rightarrow> ref \<Rightarrow> bool" where
  "isPointInCircumcircle h t p =
     (let x1 = position_x (h (p1 t)); y1 = position_y (h (p1 t));
          x2 = position_x (h (p2 t)); y2 = position_y (h (p2 t));
          x3 = position_x (h (p3 t)); y3 = position_y (h (p3 t));
          a = x1 * (y2 - y3) - y1 * (x2 - x3) + x2 * y3 - x3 * y2
      in if \<bar>a\<bar> < 1 / 1000000 then False
         else
           let b = (x1 * x1 + y1 * y1) * (y3 - y2) +
                   (x2 * x2 + y2 * y2) * (y1 - y3) +
                   (x3 * x3 + y3 * y3) * (y2 - y1);
               c = (x1 * x1 + y1 * y1) * (x2 - x3) +
                   (x2 * x2 + y2 * y2) * (x3 - x1) +
                   (x3 * x3 + y3 * y3) * (x1 - x2);
               d = (x1 * x1 + y1 * y1) * (x3 * y2 - x2 * y3) +
                   (x2 * x2 + y2 * y2) * (x1 * y3 - x3 * y1) +
                   (x3 * x3 + y3 * y3) * (x2 * y1 - x1 * y2);
               centerX = - b / (2 * a);
               centerY = - c / (2 * a);
               radiusSquared = (b * b + c * c - 4 * a * d) / (4 * a * a);
               distSq = (position_x (h p) - centerX) * (position_x (h p) - centerX) +
                        (position_y (h p) - centerY) * (position_y (h p) - centerY)
           in distSq < radiusSquared)"

text \<open>
  \<^verbatim>\<open>Triangle.getColorSeed()\<close>. \<^verbatim>\<open>Math.floor\<close> is the floor of the ideal
  product; the operator \<^verbatim>\<open>^\<close> takes its operands modulo \<open>2^32\<close> (ToInt32), which
  is \<open>word_of_int\<close> into 32-bit words, and associates to the left;
  \<^verbatim>\<open>>>> 0\<close> reads the 32 bits as an unsigned number.
\<close>

definition getColorSeed :: "heap \<Rightarrow> triangle \<Rightarrow> nat" where
  "getColorSeed h t =
     (let x1 = \<lfloor>position_x (h (p1 t)) * 73856093\<rfloor>;
          y1 = \<lfloor>position_y (h (p1 t)) * 19349663\<rfloor>;
          x2 = \<lfloor>position_x (h (p2 t)) * 83492791\<rfloor>;
          y2 = \<lfloor>position_y (h (p2 t)) * 52801763\<rfloor>;
          x3 = \<lfloor>position_x (h (p3 t)) * 92083207\<rfloor>;
          y3 = \<lfloor>position_y (h (p3 t)) * 73856093\<rfloor>
      in unat ((((((word_of_int x1 :: 32 word) XOR word_of_int y1) XOR word_of_int x2) XOR
               word_of_int y2) XOR word_of_int x3) XOR word_of_int y3))"

section \<open>DelaunayTriangulation.findDelaunayTriangles\<close>

text \<open>
  The innermost loop over \<open>l\<close>, with its \<^verbatim>\<open>break\<close>: it answers the final value
  of \<^verbatim>\<open>isDelaunay\<close>. The list argument is the range of \<open>l\<close> still to visit.
\<close>

fun isDelaunay_loop :: "heap \<Rightarrow> ref list \<Rightarrow> triangle \<Rightarrow> nat \<Rightarrow> nat \<Rightarrow> nat \<Rightarrow> nat list \<Rightarrow> bool" where
  "isDelaunay_loop h pts tri i j k [] = True"
| "isDelaunay_loop h pts tri i j k (l # ls) =
     (if l \<noteq> i \<and> l \<noteq> j \<and> l \<noteq> k \<and> isPointInCircumcircle h tri (pts ! l) then False
      else isDelaunay_loop h pts tri i j k ls)"

text \<open>The body of the three nested loops for one index triple: what is pushed.\<close>

definition candidate :: "heap \<Rightarrow> ref list \<Rightarrow> nat \<Rightarrow> nat \<Rightarrow> nat \<Rightarrow> triangle list" where
  "candidate h pts i j k =
     (let tri = Triangle (pts ! i) (pts ! j) (pts ! k)
      in if isDelaunay_loop h pts tri i j k [0..<length pts] then [tri] else [])"

definition findDelaunayTriangles :: "heap \<Rightarrow> ref list \<Rightarrow> triangle list" where
  "findDelaunayTriangles h pts =
     (if length pts < 3 then []
      else concat (map (\<lambda>i.
             concat (map (\<lambda>j.
               concat (map (\<lambda>k. candidate h pts i j k) [j + 1..<length pts]))
             [i + 1..<length pts - 1]))
           [0..<length pts - 2]))"

section \<open>Application state\<close>

text \<open>
  What the scene holds: point meshes (by reference) and the line-segment objects of
  the triangles (by the number they were created with).
\<close>

datatype sceneObj = PointMesh ref | LineSegments nat

text \<open>
  An entry of \<^verbatim>\<open>DelaunayTriangulation.meshes\<close>. \<open>line\<close> identifies the
  \<^verbatim>\<open>THREE.LineSegments\<close> object together with the geometry and material created
  with it; \<open>geometry\<close> is the content of the geometry's position attribute
  (18 coordinates), \<open>material\<close> the colour seed the material's colour is derived
  from (the colour utility itself is not modelled), \<open>triangle\<close> the triangle drawn.
\<close>

record meshObj =
  line :: nat
  geometry :: "real list"
  material :: nat
  triangle :: triangle

text \<open>
  The state of \<^verbatim>\<open>PointManager\<close> and \<^verbatim>\<open>DelaunayTriangulation\<close> with the scene
  they share. \<open>next_ref\<close> and \<open>next_line\<close> number the objects made by
  \<^verbatim>\<open>new\<close>; \<open>triangulation\<close> tells whether \<^verbatim>\<open>PointManager.triangulation\<close> is
  set; \<open>disposed\<close> lists the drawables whose geometry and material were disposed.
\<close>

record state =
  heap :: heap
  next_ref :: ref
  points :: "ref list"
  lastAddedPoint :: "ref option"
  triangulation :: bool
  scene :: "sceneObj list"
  triangles :: "triangle list"
  meshes :: "meshObj list"
  next_line :: nat
  disposed :: "nat list"

text \<open>The state after \<^verbatim>\<open>DelaunayApp.initComponents\<close>: nothing allocated, triangulation registered.\<close>

definition initial_state :: state where
  "initial_state =
     \<lparr>heap = (\<lambda>_. \<lparr>position_x = 0, position_y = 0, userData = None\<rparr>),
      next_ref = 0, points = [], lastAddedPoint = None, triangulation = True,
      scene = [], triangles = [], meshes = [], next_line = 0, disposed = []\<rparr>"

section \<open>DelaunayTriangulation\<close>

definition Z_OFFSET :: real where "Z_OFFSET = - (1 / 10)"

definition getTriangleVertices :: "heap \<Rightarrow> triangle \<Rightarrow> (real \<times> real \<times> real) list" where
  "getTriangleVertices h t =
     [(position_x (h (p1 t)), position_y (h (p1 t)), Z_OFFSET),
      (position_x (h (p2 t)), position_y (h (p2 t)), Z_OFFSET),
      (position_x (h (p3 t)), position_y (h (p3 t)), Z_OFFSET)]"

text \<open>
  The coordinates of the three edges, start point then end point of each edge: the
  loop over \<open>i < 3\<close> shared by \<^verbatim>\<open>drawTriangle\<close> and \<^verbatim>\<open>updateTrianglePositions\<close>.
\<close>

definition edge_positions :: "(real \<times> real \<times> real) list \<Rightarrow> real list" where
  "edge_positions vertices =
     concat (map (\<lambda>i.
       (case vertices ! i of (x, y, z) \<Rightarrow> [x, y, z]) @
       (case vertices ! ((i + 1) mod 3) of (x, y, z) \<Rightarrow> [x, y, z])) [0..<3])"

definition drawTriangle :: "state \<Rightarrow> triangle \<Rightarrow> state" where
  "drawTriangle s t =
     (let colorSeed = getColorSeed (heap s) t;
          vertices = getTriangleVertices (heap s) t;
          lineSegments = next_line s
      in s\<lparr>next_line := Suc lineSegments,
           scene := scene s @ [LineSegments lineSegments],
           meshes := meshes s @
             [\<lparr>line = lineSegments, geometry = edge_positions vertices,
               material = colorSeed, triangle = t\<rparr>]\<rparr>)"

definition updateTrianglePositions :: "state \<Rightarrow> state" where
  "updateTrianglePositions s =
     s\<lparr>meshes := map (\<lambda>meshObj.
          meshObj\<lparr>geometry := edge_positions (getTriangleVertices (heap s) (triangle meshObj))\<rparr>)
        (meshes s)\<rparr>"

definition clearTriangleMeshes :: "state \<Rightarrow> state" where
  "clearTriangleMeshes s =
     s\<lparr>scene := foldl (\<lambda>sc meshObj. removeAll (LineSegments (line meshObj)) sc) (scene s) (meshes s),
       disposed := disposed s @ map line (meshes s),
       meshes := []\<rparr>"

definition calculateAndDraw :: "state \<Rightarrow> state" where
  "calculateAndDraw s =
     (let s1 = clearTriangleMeshes s
      in if length (points s1) \<ge> 3
         then let s2 = s1\<lparr>triangles := findDelaunayTriangles (heap s1) (points s1)\<rparr>
              in foldl drawTriangle s2 (triangles s2)
         else s1)"

definition DelaunayTriangulation_dispose :: "state \<Rightarrow> state" where
  "DelaunayTriangulation_dispose s = (clearTriangleMeshes s)\<lparr>triangles := []\<rparr>"

section \<open>PointManager\<close>

text \<open>
  The methods below that change one point are functions on its mesh. Where the
  JavaScript reads a field of an emptied \<^verbatim>\<open>userData\<close> it computes with
  \<^verbatim>\<open>undefined\<close> and stores NaN; reals have no NaN, and the model leaves such a
  mesh as it is. No point of the list is in that state (\<open>live_inv\<close> below).
\<close>

definition update_userData :: "(user_data \<Rightarrow> user_data) \<Rightarrow> mesh \<Rightarrow> mesh" where
  "update_userData f point = point\<lparr>userData := map_option f (userData point)\<rparr>"

definition removePoint :: "state \<Rightarrow> ref \<Rightarrow> state" where
  "removePoint s point =
     s\<lparr>scene := removeAll (PointMesh point) (scene s),
       heap := (heap s)(point := (heap s point)\<lparr>userData := None\<rparr>)\<rparr>"

text \<open>
  \<^verbatim>\<open>addPoint(x, y)\<close>; \<open>innerWidth\<close> and \<open>innerHeight\<close> are the window's size when
  it is called. The result is the new mesh and the state after the call.
\<close>

definition addPoint :: "state \<Rightarrow> real \<Rightarrow> real \<Rightarrow> real \<Rightarrow> real \<Rightarrow> ref \<times> state" where
  "addPoint s innerWidth innerHeight x y =
     (let s1 = (if length (points s) \<ge> MAX_POINTS
                then (case points s of
                        [] \<Rightarrow> s
                      | oldestPoint # rest \<Rightarrow> removePoint (s\<lparr>points := rest\<rparr>) oldestPoint)
                else s);
          threeX = x - innerWidth / 2;
          threeY = innerHeight / 2 - y;
          mesh = next_ref s1
      in (mesh,
          s1\<lparr>heap := (heap s1)(mesh :=
                \<lparr>position_x = threeX, position_y = threeY,
                 userData = Some \<lparr>vx = 0, vy = 0, origX = threeX, origY = threeY\<rparr>\<rparr>),
             next_ref := Suc mesh,
             scene := scene s1 @ [PointMesh mesh],
             points := points s1 @ [mesh],
             lastAddedPoint := Some mesh\<rparr>))"

text \<open>\<^verbatim>\<open>applyRepulsionForce(point, other, strength, radius)\<close>: the new value of \<open>point\<close>.\<close>

definition applyRepulsionForce :: "mesh \<Rightarrow> mesh \<Rightarrow> real \<Rightarrow> real \<Rightarrow> mesh" where
  "applyRepulsionForce point other strength radius =
     (let dx = position_x point - position_x other;
          dy = position_y point - position_y other;
          distSq = dx * dx + dy * dy
      in if distSq < radius * radius \<and> distSq > 0
         then let dist = sqrt distSq;
                  force = strength * (1 - dist / radius)
              in update_userData
                   (\<lambda>u. u\<lparr>vx := vx u + dx / dist * force, vy := vy u + dy / dist * force\<rparr>) point
         else point)"

definition applyRepulsion :: "state \<Rightarrow> ref \<Rightarrow> state" where
  "applyRepulsion s newPoint =
     (let s1 = s\<lparr>lastAddedPoint := Some newPoint\<rparr>;
          s2 = s1\<lparr>heap := foldl (\<lambda>h point.
                  if point = newPoint then h
                  else h(point := applyRepulsionForce (h point) (h newPoint)
                                    REPULSION_STRENGTH REPULSION_RADIUS))
                (heap s1) (points s1)\<rparr>
      in if triangulation s2 \<and> length (points s2) \<ge> 3 then calculateAndDraw s2 else s2)"

text \<open>
  \<^verbatim>\<open>applyBrownianMotion()\<close>. \<open>rnd\<close> is what \<^verbatim>\<open>Math.random()\<close> answers during the
  call: \<open>rnd n\<close> is the answer to the call number \<open>n\<close>, two calls for each point.
\<close>

fun applyBrownianMotion_loop :: "(nat \<Rightarrow> real) \<Rightarrow> nat \<Rightarrow> heap \<Rightarrow> ref list \<Rightarrow> heap" where
  "applyBrownianMotion_loop rnd n h [] = h"
| "applyBrownianMotion_loop rnd n h (point # rest) =
     applyBrownianMotion_loop rnd (n + 2)
       (h(point := update_userData
            (\<lambda>u. u\<lparr>vx := vx u + (rnd n - 1 / 2) * BROWNIAN_STRENGTH,
                   vy := vy u + (rnd (n + 1) - 1 / 2) * BROWNIAN_STRENGTH\<rparr>) (h point)))
       rest"

definition applyBrownianMotion :: "state \<Rightarrow> (nat \<Rightarrow> real) \<Rightarrow> state" where
  "applyBrownianMotion s rnd = s\<lparr>heap := applyBrownianMotion_loop rnd 0 (heap s) (points s)\<rparr>"

definition constrainToOriginalPosition :: "mesh \<Rightarrow> real \<Rightarrow> real \<Rightarrow> mesh" where
  "constrainToOriginalPosition point maxDistance returnForce =
     (case userData point of
        None \<Rightarrow> point
      | Some u \<Rightarrow>
          let dx = position_x point - origX u;
              dy = position_y point - origY u;
              dist = sqrt (dx * dx + dy * dy)
          in if dist > maxDistance
             then let force = (dist - maxDistance) * returnForce
                  in point\<lparr>userData := Some (u\<lparr>vx := vx u - dx / dist * force,
                                                 vy := vy u - dy / dist * force\<rparr>)\<rparr>
             else point)"

text \<open>
  A loop \<^verbatim>\<open>for (const point of this.points)\<close> whose body changes only the
  point it visits: each listed mesh of the store is replaced by what the body makes
  of it, in list order.
\<close>

definition for_each :: "(mesh \<Rightarrow> mesh) \<Rightarrow> heap \<Rightarrow> ref list \<Rightarrow> heap" where
  "for_each body h pts = foldl (\<lambda>h point. h(point := body (h point))) h pts"

definition applyPositionConstraints :: "state \<Rightarrow> state" where
  "applyPositionConstraints s =
     s\<lparr>heap := for_each (\<lambda>point. constrainToOriginalPosition point MAX_DISTANCE RETURN_FORCE)
                (heap s) (points s)\<rparr>"

definition applyFriction :: "mesh \<Rightarrow> real \<Rightarrow> mesh" where
  "applyFriction point friction =
     update_userData (\<lambda>u. u\<lparr>vx := vx u * friction, vy := vy u * friction\<rparr>) point"

definition constrainToScreen :: "mesh \<Rightarrow> real \<Rightarrow> real \<Rightarrow> real \<Rightarrow> mesh" where
  "constrainToScreen point halfWidth halfHeight bounceFactor =
     (let pt1 = (if position_x point < - halfWidth
                 then update_userData (\<lambda>u. u\<lparr>vx := - vx u * bounceFactor\<rparr>)
                        (point\<lparr>position_x := - halfWidth\<rparr>)
                 else point);
          pt2 = (if position_x pt1 > halfWidth
                 then update_userData (\<lambda>u. u\<lparr>vx := - vx u * bounceFactor\<rparr>)
                        (pt1\<lparr>position_x := halfWidth\<rparr>)
                 else pt1);
          pt3 = (if position_y pt2 < - halfHeight
                 then update_userData (\<lambda>u. u\<lparr>vy := - vy u * bounceFactor\<rparr>)
                        (pt2\<lparr>position_y := - halfHeight\<rparr>)
                 else pt2);
          pt4 = (if position_y pt3 > halfHeight
                 then update_userData (\<lambda>u. u\<lparr>vy := - vy u * bounceFactor\<rparr>)
                        (pt3\<lparr>position_y := halfHeight\<rparr>)
                 else pt3)
      in pt4)"

text \<open>\<^verbatim>\<open>position.x += userData.vx; position.y += userData.vy\<close>.\<close>

definition integrate :: "mesh \<Rightarrow> mesh" where
  "integrate point =
     (case userData point of
        None \<Rightarrow> point
      | Some u \<Rightarrow> point\<lparr>position_x := position_x point + vx u,
                        position_y := position_y point + vy u\<rparr>)"

text \<open>The body of the loop of \<^verbatim>\<open>updatePoints\<close> for one point: its new value.\<close>

definition update_point :: "mesh \<Rightarrow> real \<Rightarrow> real \<Rightarrow> mesh" where
  "update_point point screenWidth screenHeight =
     applyFriction
       (constrainToScreen (integrate point) (screenWidth / 2) (screenHeight / 2) BOUNCE_FACTOR)
       FRICTION"

text \<open>One turn of that loop on the store and the flag \<^verbatim>\<open>positionsChanged\<close>.\<close>

definition updatePoints_step :: "real \<Rightarrow> real \<Rightarrow> heap \<times> bool \<Rightarrow> ref \<Rightarrow> heap \<times> bool" where
  "updatePoints_step screenWidth screenHeight hc point =
     (case hc of (h, positionsChanged) \<Rightarrow>
        let oldX = position_x (h point);
            oldY = position_y (h point);
            new = update_point (h point) screenWidth screenHeight
        in (h(point := new),
            positionsChanged \<or> oldX \<noteq> position_x new \<or> oldY \<noteq> position_y new))"

definition updatePoints :: "state \<Rightarrow> (nat \<Rightarrow> real) \<Rightarrow> real \<Rightarrow> real \<Rightarrow> state" where
  "updatePoints s rnd screenWidth screenHeight =
     (let s1 = applyBrownianMotion s rnd;
          s2 = applyPositionConstraints s1;
          (h, positionsChanged) =
             foldl (updatePoints_step screenWidth screenHeight) (heap s2, False) (points s2);
          s3 = s2\<lparr>heap := h\<rparr>
      in if positionsChanged \<and> triangulation s3 then updateTrianglePositions s3 else s3)"

text \<open>
  \<^verbatim>\<open>PointManager.dispose()\<close>; the disposal of the geometry and material shared by
  the point meshes is a matter of the graphics library and is left out.
\<close>

definition PointManager_dispose :: "state \<Rightarrow> state" where
  "PointManager_dispose s = (foldl removePoint s (points s))\<lparr>points := []\<rparr>"

section \<open>Double precision\<close>

text \<open>
  Rounding to the nearest double. A double is an integer multiple \<open>m * 2^e / 2^1074\<close>
  of a power of two with \<open>\<bar>m\<bar> \<le> 2^53\<close>; the smallest spacing, \<open>1 / 2^1074\<close>, is that of
  the subnormal numbers. \<open>roundTiesToEven\<close> rounds to the nearest integer and, half
  way between two integers, to the even one. \<open>to_double x\<close> scales \<open>\<bar>x\<bar>\<close> by
  \<open>2^1074\<close>, finds from its bit length the spacing \<open>2^e\<close> of the doubles around it,
  and rounds to a multiple of that spacing. Overflow to \<^verbatim>\<open>Infinity\<close> (results of
  magnitude \<open>2^1024\<close> and more) is not represented.
\<close>

definition roundTiesToEven :: "real \<Rightarrow> int" where
  "roundTiesToEven r =
     (let f = \<lfloor>r\<rfloor>
      in if r - of_int f < 1 / 2 then f
         else if 1 / 2 < r - of_int f then f + 1
         else if even f then f else f + 1)"

definition to_double :: "real \<Rightarrow> real" where
  "to_double x =
     (let y = \<bar>x\<bar> * 2 ^ 1074;
          e = nat (bitlen \<lfloor>y\<rfloor> - 53)
      in sgn x * (of_int (roundTiesToEven (y / 2 ^ e)) * 2 ^ e / 2 ^ 1074))"

text \<open>The operators \<^verbatim>\<open>+\<close>, \<^verbatim>\<open>-\<close>, \<^verbatim>\<open>*\<close> and \<^verbatim>\<open>/\<close> on doubles. Unary minus and
  \<^verbatim>\<open>Math.abs\<close> are exact.\<close>

definition fadd :: "real \<Rightarrow> real \<Rightarrow> real" where "fadd x y = to_double (x + y)"
definition fsub :: "real \<Rightarrow> real \<Rightarrow> real" where "fsub x y = to_double (x - y)"
definition fmul :: "real \<Rightarrow> real \<Rightarrow> real" where "fmul x y = to_double (x * y)"
definition fdiv :: "real \<Rightarrow> real \<Rightarrow> real" where "fdiv x y = to_double (x / y)"

text \<open>
  \<^verbatim>\<open>Triangle.isPointInCircumcircle(p)\<close> in double precision. The operators associate
  to the left, so \<^verbatim>\<open>4 * a * d\<close> is \<^verbatim>\<open>(4 * a) * d\<close>; the literal \<^verbatim>\<open>1e-6\<close> is the
  double nearest to \<open>1 / 1000000\<close>.
\<close>

definition isPointInCircumcircle_double :: "heap \<Rightarrow> triangle \<Rightarrow> ref \<Rightarrow> bool" where
  "isPointInCircumcircle_double h t p =
     (let x1 = position_x (h (p1 t)); y1 = position_y (h (p1 t));
          x2 = position_x (h (p2 t)); y2 = position_y (h (p2 t));
          x3 = position_x (h (p3 t)); y3 = position_y (h (p3 t));
          a = fsub (fadd (fsub (fmul x1 (fsub y2 y3)) (fmul y1 (fsub x2 x3))) (fmul x2 y3)) (fmul x3 y2)
      in if \<bar>a\<bar> < to_double (1 / 1000000) then False
         else
           let b = fadd (fadd (fmul (fadd (fmul x1 x1) (fmul y1 y1)) (fsub y3 y2))
                              (fmul (fadd (fmul x2 x2) (fmul y2 y2)) (fsub y1 y3)))
                        (fmul (fadd (fmul x3 x3) (fmul y3 y3)) (fsub y2 y1));
               c = fadd (fadd (fmul (fadd (fmul x1 x1) (fmul y1 y1)) (fsub x2 x3))
                              (fmul (fadd (fmul x2 x2) (fmul y2 y2)) (fsub x3 x1)))
                        (fmul (fadd (fmul x3 x3) (fmul y3 y3)) (fsub x1 x2));
               d = fadd (fadd (fmul (fadd (fmul x1 x1) (fmul y1 y1)) (fsub (fmul x3 y2) (fmul x2 y3)))
                              (fmul (fadd (fmul x2 x2) (fmul y2 y2)) (fsub (fmul x1 y3) (fmul x3 y1))))
                        (fmul (fadd (fmul x3 x3) (fmul y3 y3)) (fsub (fmul x2 y1) (fmul x1 y2)));
               centerX = fdiv (- b) (fmul 2 a);
               centerY = fdiv (- c) (fmul 2 a);
               radiusSquared = fdiv (fsub (fadd (fmul b b) (fmul c c)) (fmul (fmul 4 a) d))
                                    (fmul (fmul 4 a) a);
               distSq = fadd (fmul (fsub (position_x (h p)) centerX) (fsub (position_x (h p)) centerX))
                             (fmul (fsub (position_y (h p)) centerY) (fsub (position_y (h p)) centerY))
           in distSq < radiusSquared)"

text \<open>
  \<^verbatim>\<open>findDelaunayTriangles\<close> and \<^verbatim>\<open>calculateAndDraw\<close> with the test in double
  precision: the loops are those of the exact reading.
\<close>

fun isDelaunay_loop_double :: "heap \<Rightarrow> ref list \<Rightarrow> triangle \<Rightarrow> nat \<Rightarrow> nat \<Rightarrow> nat \<Rightarrow> nat list \<Rightarrow> bool" where
  "isDelaunay_loop_double h pts tri i j k [] = True"
| "isDelaunay_loop_double h pts tri i j k (l # ls) =
     (if l \<noteq> i \<and> l \<noteq> j \<and> l \<noteq> k \<and> isPointInCircumcircle_double h tri (pts ! l) then False
      else isDelaunay_loop_double h pts tri i j k ls)"

definition candidate_double :: "heap \<Rightarrow> ref list \<Rightarrow> nat \<Rightarrow> nat \<Rightarrow> nat \<Rightarrow> triangle list" where
  "candidate_double h pts i j k =
     (let tri = Triangle (pts ! i) (pts ! j) (pts ! k)
      in if isDelaunay_loop_double h pts tri i j k [0..<length pts] then [tri] else [])"

definition findDelaunayTriangles_double :: "heap \<Rightarrow> ref list \<Rightarrow> triangle list" where
  "findDelaunayTriangles_double h pts =
     (if length pts < 3 then []
      else concat (map (\<lambda>i.
             concat (map (\<lambda>j.
               concat (map (\<lambda>k. candidate_double h pts i j k) [j + 1..<length pts]))
             [i + 1..<length pts - 1]))
           [0..<length pts - 2]))"

definition calculateAndDraw_double :: "state \<Rightarrow> state" where
  "calculateAndDraw_double s =
     (let s1 = clearTriangleMeshes s
      in if length (points s1) \<ge> 3
         then let s2 = s1\<lparr>triangles := findDelaunayTriangles_double (heap s1) (points s1)\<rparr>
              in foldl drawTriangle s2 (triangles s2)
         else s1)"

text \<open>
  The physics of \<^verbatim>\<open>PointManager\<close> in double precision: the functions are those of
  the exact reading with every arithmetic operation rounded. The literals
  \<^verbatim>\<open>0.9\<close>, \<^verbatim>\<open>0.2\<close> and \<^verbatim>\<open>0.1\<close> are the doubles nearest to them; \<^verbatim>\<open>0.5\<close> and
  \<^verbatim>\<open>5.0\<close> are doubles. \<^verbatim>\<open>Math.sqrt\<close> is correctly rounded.
\<close>

fun applyBrownianMotion_loop_double :: "(nat \<Rightarrow> real) \<Rightarrow> nat \<Rightarrow> heap \<Rightarrow> ref list \<Rightarrow> heap" where
  "applyBrownianMotion_loop_double rnd n h [] = h"
| "applyBrownianMotion_loop_double rnd n h (point # rest) =
     applyBrownianMotion_loop_double rnd (n + 2)
       (h(point := update_userData
            (\<lambda>u. u\<lparr>vx := fadd (vx u) (fmul (fsub (rnd n) (1 / 2)) (to_double BROWNIAN_STRENGTH)),
                   vy := fadd (vy u) (fmul (fsub (rnd (n + 1)) (1 / 2)) (to_double BROWNIAN_STRENGTH))\<rparr>)
            (h point)))
       rest"

definition applyBrownianMotion_double :: "state \<Rightarrow> (nat \<Rightarrow> real) \<Rightarrow> state" where
  "applyBrownianMotion_double s rnd =
     s\<lparr>heap := applyBrownianMotion_loop_double rnd 0 (heap s) (points s)\<rparr>"

definition constrainToOriginalPosition_double :: "mesh \<Rightarrow> real \<Rightarrow> real \<Rightarrow> mesh" where
  "constrainToOriginalPosition_double point maxDistance returnForce =
     (case userData point of
        None \<Rightarrow> point
      | Some u \<Rightarrow>
          let dx = fsub (position_x point) (origX u);
              dy = fsub (position_y point) (origY u);
              dist = to_double (sqrt (fadd (fmul dx dx) (fmul dy dy)))
          in if dist > maxDistance
             then let force = fmul (fsub dist maxDistance) returnForce
                  in point\<lparr>userData := Some (u\<lparr>vx := fsub (vx u) (fmul (fdiv dx dist) force),
                                                 vy := fsub (vy u) (fmul (fdiv dy dist) force)\<rparr>)\<rparr>
             else point)"

definition applyPositionConstraints_double :: "state \<Rightarrow> state" where
  "applyPositionConstraints_double s =
     s\<lparr>heap := for_each (\<lambda>point. constrainToOriginalPosition_double point MAX_DISTANCE
                                   (to_double RETURN_FORCE))
                (heap s) (points s)\<rparr>"

definition applyFriction_double :: "mesh \<Rightarrow> real \<Rightarrow> mesh" where
  "applyFriction_double point friction =
     update_userData (\<lambda>u. u\<lparr>vx := fmul (vx u) friction, vy := fmul (vy u) friction\<rparr>) point"

definition constrainToScreen_double :: "mesh \<Rightarrow> real \<Rightarrow> real \<Rightarrow> real \<Rightarrow> mesh" where
  "constrainToScreen_double point halfWidth halfHeight bounceFactor =
     (let pt1 = (if position_x point < - halfWidth
                 then update_userData (\<lambda>u. u\<lparr>vx := fmul (- vx u) bounceFactor\<rparr>)
                        (point\<lparr>position_x := - halfWidth\<rparr>)
                 else point);
          pt2 = (if position_x pt1 > halfWidth
                 then update_userData (\<lambda>u. u\<lparr>vx := fmul (- vx u) bounceFactor\<rparr>)
                        (pt1\<lparr>position_x := halfWidth\<rparr>)
                 else pt1);
          pt3 = (if position_y pt2 < - halfHeight
                 then update_userData (\<lambda>u. u\<lparr>vy := fmul (- vy u) bounceFactor\<rparr>)
                        (pt2\<lparr>position_y := - halfHeight\<rparr>)
                 else pt2);
          pt4 = (if position_y pt3 > halfHeight
                 then update_userData (\<lambda>u. u\<lparr>vy := fmul (- vy u) bounceFactor\<rparr>)
                        (pt3\<lparr>position_y := halfHeight\<rparr>)
                 else pt3)
      in pt4)"

definition integrate_double :: "mesh \<Rightarrow> mesh" where
  "integrate_double point =
     (case userData point of
        None \<Rightarrow> point
      | Some u \<Rightarrow> point\<lparr>position_x := fadd (position_x point) (vx u),
                        position_y := fadd (position_y point) (vy u)\<rparr>)"

definition update_point_double :: "mesh \<Rightarrow> real \<Rightarrow> real \<Rightarrow> mesh" where
  "update_point_double point screenWidth screenHeight =
     applyFriction_double
       (constrainToScreen_double (integrate_double point)
          (fdiv screenWidth 2) (fdiv screenHeight 2) BOUNCE_FACTOR)
       (to_double FRICTION)"

definition updatePoints_step_double :: "real \<Rightarrow> real \<Rightarrow> heap \<times> bool \<Rightarrow> ref \<Rightarrow> heap \<times> bool" where
  "updatePoints_step_double screenWidth screenHeight hc point =
     (case hc of (h, positionsChanged) \<Rightarrow>
        let oldX = position_x (h point);
            oldY = position_y (h point);
            new = update_point_double (h point) screenWidth screenHeight
        in (h(point := new),
            positionsChanged \<or> oldX \<noteq> position_x new \<or> oldY \<noteq> position_y new))"

definition updatePoints_double :: "state \<Rightarrow> (nat \<Rightarrow> real) \<Rightarrow> real \<Rightarrow> real \<Rightarrow> state" where
  "updatePoints_double s rnd screenWidth screenHeight =
     (let s1 = applyBrownianMotion_double s rnd;
          s2 = applyPositionConstraints_double s1;
          (h, positionsChanged) =
             foldl (updatePoints_step_double screenWidth screenHeight) (heap s2, False) (points s2);
          s3 = s2\<lparr>heap := h\<rparr>
      in if positionsChanged \<and> triangulation s3 then updateTrianglePositions s3 else s3)"

section \<open>Notions of the specification and example inputs\<close>

text \<open>
  The circumcircle in the words of the specification: a circle (centre \<open>(cx, cy)\<close>,
  squared radius \<open>r2\<close>) that passes through the three vertices. A point is strictly
  inside it when its squared distance to the centre is smaller than \<open>r2\<close>.
\<close>

definition on_circle :: "real \<Rightarrow> real \<Rightarrow> real \<Rightarrow> real \<Rightarrow> real \<Rightarrow> bool" where
  "on_circle cx cy r2 x y \<longleftrightarrow> (x - cx) * (x - cx) + (y - cy) * (y - cy) = r2"

definition strictly_inside_circumcircle :: "heap \<Rightarrow> triangle \<Rightarrow> ref \<Rightarrow> bool" where
  "strictly_inside_circumcircle h t p \<longleftrightarrow>
     (\<exists>cx cy r2.
        on_circle cx cy r2 (position_x (h (p1 t))) (position_y (h (p1 t))) \<and>
        on_circle cx cy r2 (position_x (h (p2 t))) (position_y (h (p2 t))) \<and>
        on_circle cx cy r2 (position_x (h (p3 t))) (position_y (h (p3 t))) \<and>
        (position_x (h p) - cx) * (position_x (h p) - cx) +
        (position_y (h p) - cy) * (position_y (h p) - cy) < r2)"

text \<open>Three points are collinear when the cross product of two of their differences vanishes.\<close>

definition collinear :: "heap \<Rightarrow> triangle \<Rightarrow> bool" where
  "collinear h t \<longleftrightarrow>
     (position_x (h (p2 t)) - position_x (h (p1 t))) * (position_y (h (p3 t)) - position_y (h (p1 t))) -
     (position_y (h (p2 t)) - position_y (h (p1 t))) * (position_x (h (p3 t)) - position_x (h (p1 t))) = 0"

text \<open>
  The determinant \<open>a\<close> of \<^verbatim>\<open>isPointInCircumcircle\<close> (twice the signed area of the
  triangle), as the source computes it.
\<close>

definition triangle_det :: "heap \<Rightarrow> triangle \<Rightarrow> real" where
  "triangle_det h t =
     (let x1 = position_x (h (p1 t)); y1 = position_y (h (p1 t));
          x2 = position_x (h (p2 t)); y2 = position_y (h (p2 t));
          x3 = position_x (h (p3 t)); y3 = position_y (h (p3 t))
      in x1 * (y2 - y3) - y1 * (x2 - x3) + x2 * y3 - x3 * y2)"

text \<open>
  The determinants \<open>a\<close>, \<open>b\<close>, \<open>c\<close>, \<open>d\<close> of \<^verbatim>\<open>isPointInCircumcircle\<close> as
  functions of the coordinates, the polynomial they define, and the test itself on
  coordinates.
\<close>

definition det_a :: "real \<Rightarrow> real \<Rightarrow> real \<Rightarrow> real \<Rightarrow> real \<Rightarrow> real \<Rightarrow> real" where
  "det_a x1 y1 x2 y2 x3 y3 = x1 * (y2 - y3) - y1 * (x2 - x3) + x2 * y3 - x3 * y2"

definition det_b :: "real \<Rightarrow> real \<Rightarrow> real \<Rightarrow> real \<Rightarrow> real \<Rightarrow> real \<Rightarrow> real" where
  "det_b x1 y1 x2 y2 x3 y3 = (x1 * x1 + y1 * y1) * (y3 - y2) +
                   (x2 * x2 + y2 * y2) * (y1 - y3) +
                   (x3 * x3 + y3 * y3) * (y2 - y1)"

definition det_c :: "real \<Rightarrow> real \<Rightarrow> real \<Rightarrow> real \<Rightarrow> real \<Rightarrow> real \<Rightarrow> real" where
  "det_c x1 y1 x2 y2 x3 y3 = (x1 * x1 + y1 * y1) * (x2 - x3) +
                   (x2 * x2 + y2 * y2) * (x3 - x1) +
                   (x3 * x3 + y3 * y3) * (x1 - x2)"

definition det_d :: "real \<Rightarrow> real \<Rightarrow> real \<Rightarrow> real \<Rightarrow> real \<Rightarrow> real \<Rightarrow> real" where
  "det_d x1 y1 x2 y2 x3 y3 = (x1 * x1 + y1 * y1) * (x3 * y2 - x2 * y3) +
                   (x2 * x2 + y2 * y2) * (x1 * y3 - x3 * y1) +
                   (x3 * x3 + y3 * y3) * (x2 * y1 - x1 * y2)"

definition pw :: "real \<Rightarrow> real \<Rightarrow> real \<Rightarrow> real \<Rightarrow> real \<Rightarrow> real \<Rightarrow> real \<Rightarrow> real \<Rightarrow> real" where
  "pw x1 y1 x2 y2 x3 y3 x y =
     det_a x1 y1 x2 y2 x3 y3 * (x * x + y * y) + det_b x1 y1 x2 y2 x3 y3 * x +
     det_c x1 y1 x2 y2 x3 y3 * y + det_d x1 y1 x2 y2 x3 y3"

definition circ_test :: "real \<Rightarrow> real \<Rightarrow> real \<Rightarrow> real \<Rightarrow> real \<Rightarrow> real \<Rightarrow> real \<Rightarrow> real \<Rightarrow> bool" where
  "circ_test x1 y1 x2 y2 x3 y3 x y =
     (if \<bar>det_a x1 y1 x2 y2 x3 y3\<bar> < 1 / 1000000 then False
      else (x - (- det_b x1 y1 x2 y2 x3 y3 / (2 * det_a x1 y1 x2 y2 x3 y3))) *
           (x - (- det_b x1 y1 x2 y2 x3 y3 / (2 * det_a x1 y1 x2 y2 x3 y3))) +
           (y - (- det_c x1 y1 x2 y2 x3 y3 / (2 * det_a x1 y1 x2 y2 x3 y3))) *
           (y - (- det_c x1 y1 x2 y2 x3 y3 / (2 * det_a x1 y1 x2 y2 x3 y3)))
           < (det_b x1 y1 x2 y2 x3 y3 * det_b x1 y1 x2 y2 x3 y3 +
              det_c x1 y1 x2 y2 x3 y3 * det_c x1 y1 x2 y2 x3 y3 -
              4 * det_a x1 y1 x2 y2 x3 y3 * det_d x1 y1 x2 y2 x3 y3) /
             (4 * det_a x1 y1 x2 y2 x3 y3 * det_a x1 y1 x2 y2 x3 y3))"

text \<open>
  Error bounds for the double-precision reading: \<open>ap B E x t\<close> says that the exact
  value \<open>t\<close> is at most \<open>B\<close> in absolute value and the computed value \<open>x\<close> is within
  \<open>E\<close> of it; \<open>rel r x t\<close> says that \<open>x\<close> is within the fraction \<open>r\<close> of \<open>t\<close>.
\<close>

definition ap :: "real \<Rightarrow> real \<Rightarrow> real \<Rightarrow> real \<Rightarrow> bool" where
  "ap B E x t \<longleftrightarrow> \<bar>t\<bar> \<le> B \<and> \<bar>x - t\<bar> \<le> E"

definition rel :: "real \<Rightarrow> real \<Rightarrow> real \<Rightarrow> bool" where
  "rel r x t \<longleftrightarrow> \<bar>x - t\<bar> \<le> r * \<bar>t\<bar>"

text \<open>
  The determinants and the test of \<^verbatim>\<open>isPointInCircumcircle\<close> on coordinates, every
  operation rounded to double precision, and the exact value of
  \<^verbatim>\<open>distSq - radiusSquared\<close>.
\<close>

definition det_a_double :: "real \<Rightarrow> real \<Rightarrow> real \<Rightarrow> real \<Rightarrow> real \<Rightarrow> real \<Rightarrow> real" where
  "det_a_double x1 y1 x2 y2 x3 y3 =
     fsub (fadd (fsub (fmul x1 (fsub y2 y3)) (fmul y1 (fsub x2 x3))) (fmul x2 y3)) (fmul x3 y2)"

definition det_b_double :: "real \<Rightarrow> real \<Rightarrow> real \<Rightarrow> real \<Rightarrow> real \<Rightarrow> real \<Rightarrow> real" where
  "det_b_double x1 y1 x2 y2 x3 y3 =
     fadd (fadd (fmul (fadd (fmul x1 x1) (fmul y1 y1)) (fsub y3 y2))
                (fmul (fadd (fmul x2 x2) (fmul y2 y2)) (fsub y1 y3)))
          (fmul (fadd (fmul x3 x3) (fmul y3 y3)) (fsub y2 y1))"

definition det_c_double :: "real \<Rightarrow> real \<Rightarrow> real \<Rightarrow> real \<Rightarrow> real \<Rightarrow> real \<Rightarrow> real" where
  "det_c_double x1 y1 x2 y2 x3 y3 =
     fadd (fadd (fmul (fadd (fmul x1 x1) (fmul y1 y1)) (fsub x2 x3))
                (fmul (fadd (fmul x2 x2) (fmul y2 y2)) (fsub x3 x1)))
          (fmul (fadd (fmul x3 x3) (fmul y3 y3)) (fsub x1 x2))"

definition det_d_double :: "real \<Rightarrow> real \<Rightarrow> real \<Rightarrow> real \<Rightarrow> real \<Rightarrow> real \<Rightarrow> real" where
  "det_d_double x1 y1 x2 y2 x3 y3 =
     fadd (fadd (fmul (fadd (fmul x1 x1) (fmul y1 y1)) (fsub (fmul x3 y2) (fmul x2 y3)))
                (fmul (fadd (fmul x2 x2) (fmul y2 y2)) (fsub (fmul x1 y3) (fmul x3 y1))))
          (fmul (fadd (fmul x3 x3) (fmul y3 y3)) (fsub (fmul x2 y1) (fmul x1 y2)))"

definition circ_test_double :: "real \<Rightarrow> real \<Rightarrow> real \<Rightarrow> real \<Rightarrow> real \<Rightarrow> real \<Rightarrow> real \<Rightarrow> real \<Rightarrow> bool" where
  "circ_test_double x1 y1 x2 y2 x3 y3 x y =
     (if \<bar>det_a_double x1 y1 x2 y2 x3 y3\<bar> < to_double (1 / 1000000) then False
      else fadd (fmul (fsub x (fdiv (- det_b_double x1 y1 x2 y2 x3 y3) (fmul 2 (det_a_double x1 y1 x2 y2 x3 y3))))
                      (fsub x (fdiv (- det_b_double x1 y1 x2 y2 x3 y3) (fmul 2 (det_a_double x1 y1 x2 y2 x3 y3)))))
                (fmul (fsub y (fdiv (- det_c_double x1 y1 x2 y2 x3 y3) (fmul 2 (det_a_double x1 y1 x2 y2 x3 y3))))
                      (fsub y (fdiv (- det_c_double x1 y1 x2 y2 x3 y3) (fmul 2 (det_a_double x1 y1 x2 y2 x3 y3)))))
           < fdiv (fsub (fadd (fmul (det_b_double x1 y1 x2 y2 x3 y3) (det_b_double x1 y1 x2 y2 x3 y3))
                              (fmul (det_c_double x1 y1 x2 y2 x3 y3) (det_c_double x1 y1 x2 y2 x3 y3)))
                        (fmul (fmul 4 (det_a_double x1 y1 x2 y2 x3 y3)) (det_d_double x1 y1 x2 y2 x3 y3)))
                  (fmul (fmul 4 (det_a_double x1 y1 x2 y2 x3 y3)) (det_a_double x1 y1 x2 y2 x3 y3)))"

definition circ_gap :: "real \<Rightarrow> real \<Rightarrow> real \<Rightarrow> real \<Rightarrow> real \<Rightarrow> real \<Rightarrow> real \<Rightarrow> real \<Rightarrow> real" where
  "circ_gap x1 y1 x2 y2 x3 y3 x y =
     (x - (- det_b x1 y1 x2 y2 x3 y3 / (2 * det_a x1 y1 x2 y2 x3 y3))) *
     (x - (- det_b x1 y1 x2 y2 x3 y3 / (2 * det_a x1 y1 x2 y2 x3 y3))) +
     (y - (- det_c x1 y1 x2 y2 x3 y3 / (2 * det_a x1 y1 x2 y2 x3 y3))) *
     (y - (- det_c x1 y1 x2 y2 x3 y3 / (2 * det_a x1 y1 x2 y2 x3 y3))) -
     (det_b x1 y1 x2 y2 x3 y3 * det_b x1 y1 x2 y2 x3 y3 +
      det_c x1 y1 x2 y2 x3 y3 * det_c x1 y1 x2 y2 x3 y3 -
      4 * det_a x1 y1 x2 y2 x3 y3 * det_d x1 y1 x2 y2 x3 y3) /
     (4 * det_a x1 y1 x2 y2 x3 y3 * det_a x1 y1 x2 y2 x3 y3)"

text \<open>
  A point is clear of the circumcircle of a triangle by the margin \<open>m\<close> when its
  squared distance to the centre differs from the squared radius by at least \<open>m\<close>,
  inside or outside. An index triple is well conditioned when its determinant \<open>a\<close>
  (twice the area of the triangle) is at least \<open>16384\<close> in absolute value and every
  other point of the list is clear of its circumcircle by the margin \<open>1 / 2\<close>. The
  points are in range when no coordinate exceeds \<open>1024\<close> in absolute value.
\<close>

definition clear_of_circumcircle :: "real \<Rightarrow> heap \<Rightarrow> triangle \<Rightarrow> ref \<Rightarrow> bool" where
  "clear_of_circumcircle m h t p \<longleftrightarrow>
     (\<forall>cx cy r2.
        on_circle cx cy r2 (position_x (h (p1 t))) (position_y (h (p1 t))) \<and>
        on_circle cx cy r2 (position_x (h (p2 t))) (position_y (h (p2 t))) \<and>
        on_circle cx cy r2 (position_x (h (p3 t))) (position_y (h (p3 t))) \<longrightarrow>
        m \<le> \<bar>(position_x (h p) - cx) * (position_x (h p) - cx) +
              (position_y (h p) - cy) * (position_y (h p) - cy) - r2\<bar>)"

definition well_conditioned :: "heap \<Rightarrow> ref list \<Rightarrow> nat \<Rightarrow> nat \<Rightarrow> nat \<Rightarrow> bool" where
  "well_conditioned h pts i j k \<longleftrightarrow>
     16384 \<le> \<bar>triangle_det h (Triangle (pts ! i) (pts ! j) (pts ! k))\<bar> \<and>
     (\<forall>l < length pts. l \<noteq> i \<and> l \<noteq> j \<and> l \<noteq> k \<longrightarrow>
        clear_of_circumcircle (1 / 2) h (Triangle (pts ! i) (pts ! j) (pts ! k)) (pts ! l))"

definition in_range :: "heap \<Rightarrow> ref list \<Rightarrow> bool" where
  "in_range h pts \<longleftrightarrow>
     (\<forall>p \<in> set pts. \<bar>position_x (h p)\<bar> \<le> 1024 \<and> \<bar>position_y (h p)\<bar> \<le> 1024)"

text \<open>
  Example inputs: the store holding points at rest at the listed coordinates
  (reference \<open>r\<close> is the point number \<open>r\<close>), and the state whose point list is
  these points in order.
\<close>

definition store_of :: "(real \<times> real) list \<Rightarrow> heap" where
  "store_of ps = (\<lambda>r.
     if r < length ps
     then \<lparr>position_x = fst (ps ! r), position_y = snd (ps ! r),
           userData = Some \<lparr>vx = 0, vy = 0, origX = fst (ps ! r), origY = snd (ps ! r)\<rparr>\<rparr>
     else \<lparr>position_x = 0, position_y = 0, userData = None\<rparr>)"

definition state_of :: "(real \<times> real) list \<Rightarrow> state" where
  "state_of ps = initial_state\<lparr>heap := store_of ps, next_ref := length ps,
                                points := [0..<length ps], scene := map PointMesh [0..<length ps]\<rparr>"

definition near_heap :: heap where
  "near_heap = store_of [(0, 0), (1, 0), (0, 1 / 2 ^ 24), (1 / 2, 1 / 8)]"

definition example_state :: state where
  "example_state = state_of [(0, 0), (400, 0), (0, 400), (100, 100)]"

text \<open>
  A sequence of \<^verbatim>\<open>addPoint\<close> calls, each given as the window's size at the call
  and the screen coordinates passed: \<open>(innerWidth, innerHeight, x, y)\<close>.
\<close>

fun addPoints :: "state \<Rightarrow> (real \<times> real \<times> real \<times> real) list \<Rightarrow> state" where
  "addPoints s [] = s"
| "addPoints s ((innerWidth, innerHeight, x, y) # calls) =
     addPoints (snd (addPoint s innerWidth innerHeight x y)) calls"

text \<open>The coordinates \<^verbatim>\<open>(threeX, threeY)\<close> a call gives its point, and the position of a mesh.\<close>

definition three_coordinates :: "real \<times> real \<times> real \<times> real \<Rightarrow> real \<times> real" where
  "three_coordinates c = (case c of (innerWidth, innerHeight, x, y) \<Rightarrow> (x - innerWidth / 2, innerHeight / 2 - y))"

definition position_of :: "heap \<Rightarrow> ref \<Rightarrow> real \<times> real" where
  "position_of h r = (position_x (h r), position_y (h r))"

text \<open>
  The point list the specification asks for after \<open>n\<close> insertions: the references
  of the last \<open>MAX_POINTS\<close> points made, oldest first (the point number \<open>k\<close> made
  has reference \<open>k\<close>).
\<close>

definition last_refs :: "nat \<Rightarrow> ref list" where
  "last_refs n = drop (n - MAX_POINTS) [0..<n]"

text \<open>
  What one \<^verbatim>\<open>updatePoints\<close> call does to the point at index \<open>i\<close> of the list:
  the Brownian kick from the random numbers \<open>2 i\<close> and \<open>2 i + 1\<close> of the call, the
  pull towards its origin, then the body of the main loop.
\<close>

definition brownian_kick :: "(nat \<Rightarrow> real) \<Rightarrow> nat \<Rightarrow> mesh \<Rightarrow> mesh" where
  "brownian_kick rnd n point =
     update_userData
       (\<lambda>u. u\<lparr>vx := vx u + (rnd n - 1 / 2) * BROWNIAN_STRENGTH,
              vy := vy u + (rnd (n + 1) - 1 / 2) * BROWNIAN_STRENGTH\<rparr>) point"

definition tick_point :: "(nat \<Rightarrow> real) \<Rightarrow> nat \<Rightarrow> real \<Rightarrow> real \<Rightarrow> mesh \<Rightarrow> mesh" where
  "tick_point rnd i screenWidth screenHeight point =
     update_point
       (constrainToOriginalPosition (brownian_kick rnd (2 * i) point) MAX_DISTANCE RETURN_FORCE)
       screenWidth screenHeight"

text \<open>
  The points of the list are distinct meshes made by \<^verbatim>\<open>addPoint\<close> whose
  \<^verbatim>\<open>userData\<close> is in place. Every state the operations reach satisfies it
  (\<open>reachable_live_inv\<close>).
\<close>

definition live_inv :: "state \<Rightarrow> bool" where
  "live_inv s \<longleftrightarrow>
     distinct (points s) \<and> (\<forall>p \<in> set (points s). p < next_ref s \<and> userData (heap s p) \<noteq> None)"

text \<open>
  Example inputs: a state with one point given by position, velocity and origin; a
  random source that always answers \<open>1/2\<close> (no Brownian kick) and one that always
  answers \<open>0\<close> (the strongest kick, \<open>-0.1\<close> on each axis).
\<close>

definition moving_state :: "real \<times> real \<Rightarrow> real \<times> real \<Rightarrow> real \<times> real \<Rightarrow> state" where
  "moving_state pos vel orig =
     initial_state\<lparr>heap := (heap initial_state)(0 :=
                       \<lparr>position_x = fst pos, position_y = snd pos,
                        userData = Some \<lparr>vx = fst vel, vy = snd vel,
                                         origX = fst orig, origY = snd orig\<rparr>\<rparr>),
                    next_ref := 1, points := [0], scene := [PointMesh 0]\<rparr>"

definition quiet :: "nat \<Rightarrow> real" where
  "quiet n = 1 / 2"

definition loud :: "nat \<Rightarrow> real" where
  "loud n = 0"

text \<open>A mesh whose \<^verbatim>\<open>userData\<close> is in place.\<close>

definition has_userData :: "mesh \<Rightarrow> bool" where
  "has_userData m \<longleftrightarrow> userData m \<noteq> None"

text \<open>One turn of the loop of \<^verbatim>\<open>applyRepulsion\<close> on the store.\<close>

definition repulse_step :: "ref \<Rightarrow> heap \<Rightarrow> ref \<Rightarrow> heap" where
  "repulse_step newPoint h point =
     (if point = newPoint then h
      else h(point := applyRepulsionForce (h point) (h newPoint) REPULSION_STRENGTH REPULSION_RADIUS))"

text \<open>
  The states reached from the start by the operations, with any arguments:
  \<^verbatim>\<open>addPoint\<close>, \<^verbatim>\<open>applyRepulsion\<close>, \<^verbatim>\<open>updatePoints\<close> and \<^verbatim>\<open>calculateAndDraw\<close>.
\<close>

inductive reachable :: "state \<Rightarrow> bool" where
  init: "reachable initial_state"
| add: "reachable s \<Longrightarrow> reachable (snd (addPoint s innerWidth innerHeight x y))"
| repulse: "reachable s \<Longrightarrow> reachable (applyRepulsion s newPoint)"
| tick: "reachable s \<Longrightarrow> reachable (updatePoints s rnd screenWidth screenHeight)"
| redraw: "reachable s \<Longrightarrow> reachable (calculateAndDraw s)"

text \<open>
  The drawables were made before the next one to be made, and a point list of
  fewer than three points goes with an empty triangle list. Every reachable state
  satisfies it (\<open>reachable_drawables_inv\<close>).
\<close>

definition drawables_inv :: "state \<Rightarrow> bool" where
  "drawables_inv s \<longleftrightarrow>
     (\<forall>m \<in> set (meshes s). line m < next_line s) \<and> (length (points s) < 3 \<longrightarrow> triangles s = [])"

text \<open>Example input: the state after three \<^verbatim>\<open>addPoint\<close> calls in a window of 800 by 600.\<close>

definition three_points :: state where
  "three_points = addPoints initial_state [(800, 600, 100, 100), (800, 600, 200, 100), (800, 600, 100, 200)]"

text \<open>
  The colour seed in the words of the specification: the six multipliers of
  \<^verbatim>\<open>getColorSeed\<close> in the order of its six terms, the six coordinates they
  multiply, and the exclusive-or of the floored products as 32-bit words.
\<close>

definition colorSeedMultipliers :: "int list" where
  "colorSeedMultipliers = [73856093, 19349663, 83492791, 52801763, 92083207, 73856093]"

definition vertex_coordinates :: "heap \<Rightarrow> triangle \<Rightarrow> real list" where
  "vertex_coordinates h t =
     [position_x (h (p1 t)), position_y (h (p1 t)),
      position_x (h (p2 t)), position_y (h (p2 t)),
      position_x (h (p3 t)), position_y (h (p3 t))]"

definition xor_fold :: "real list \<Rightarrow> nat" where
  "xor_fold coordinates =
     unat (foldl (XOR) (0 :: 32 word)
       (map2 (\<lambda>c v. word_of_int \<lfloor>v * of_int c\<rfloor>) colorSeedMultipliers coordinates))"


definition quiet_ticks :: "nat \<Rightarrow> state \<Rightarrow> real \<Rightarrow> real \<Rightarrow> state" where
  "quiet_ticks n s screenWidth screenHeight =
     ((\<lambda>s. updatePoints s quiet screenWidth screenHeight) ^^ n) s"

text \<open>
  A point moving along a ray from its origin \<open>(ox, oy)\<close> in the direction
  \<open>(ex, ey)\<close>: \<open>r\<close> is its coordinate along the ray and \<open>v\<close> its velocity along the
  ray. \<open>radial_step\<close> is what one quiet \<^verbatim>\<open>updatePoints\<close> call makes of \<open>(r, v)\<close>
  away from the screen's edges (\<open>tick_point_on_ray\<close>); a point is \<open>coasting\<close>
  when it moves inwards inside the \<open>MAX_DISTANCE\<close> disc and friction stops it
  before the origin.
\<close>

definition radial_step :: "real \<times> real \<Rightarrow> real \<times> real" where
  "radial_step rv =
     (case rv of (r, v) \<Rightarrow>
        let v1 = (if r > MAX_DISTANCE then v - (r - MAX_DISTANCE) * RETURN_FORCE else v)
        in (r + v1, v1 * FRICTION))"



text \<open>
  The double-precision reading of one \<^verbatim>\<open>updatePoints\<close> call on one point, of
  \<open>n\<close> calls without Brownian noise, and of one such call on a point that has the
  \<open>y\<close> coordinate of its origin and no vertical velocity, away from the screen's
  edges: \<open>axis_step ox (x, v)\<close> is the new \<open>x\<close> coordinate and horizontal velocity
  (\<open>tick_point_double_axis\<close>).
\<close>

definition brownian_kick_double :: "(nat \<Rightarrow> real) \<Rightarrow> nat \<Rightarrow> mesh \<Rightarrow> mesh" where
  "brownian_kick_double rnd n point =
     update_userData
       (\<lambda>u. u\<lparr>vx := fadd (vx u) (fmul (fsub (rnd n) (1 / 2)) (to_double BROWNIAN_STRENGTH)),
              vy := fadd (vy u) (fmul (fsub (rnd (n + 1)) (1 / 2)) (to_double BROWNIAN_STRENGTH))\<rparr>) point"

definition tick_point_double :: "(nat \<Rightarrow> real) \<Rightarrow> nat \<Rightarrow> real \<Rightarrow> real \<Rightarrow> mesh \<Rightarrow> mesh" where
  "tick_point_double rnd i screenWidth screenHeight point =
     update_point_double
       (constrainToOriginalPosition_double (brownian_kick_double rnd (2 * i) point)
          MAX_DISTANCE (to_double RETURN_FORCE))
       screenWidth screenHeight"

definition quiet_ticks_double :: "nat \<Rightarrow> state \<Rightarrow> real \<Rightarrow> real \<Rightarrow> state" where
  "quiet_ticks_double n s screenWidth screenHeight =
     ((\<lambda>s. updatePoints_double s quiet screenWidth screenHeight) ^^ n) s"

definition axis_step :: "real \<Rightarrow> real \<times> real \<Rightarrow> real \<times> real" where
  "axis_step ox xv =
     (case xv of (x, v) \<Rightarrow>
        let dx = fsub x ox;
            dist = to_double (sqrt (fmul dx dx));
            v1 = (if dist > MAX_DISTANCE
                  then fsub v (fmul (fdiv dx dist) (fmul (fsub dist MAX_DISTANCE) (to_double RETURN_FORCE)))
                  else v)
        in (fadd x v1, fmul v1 (to_double FRICTION)))"

section \<open>The circumcircle test\<close>

lemma pw_vertices:
  "pw x1 y1 x2 y2 x3 y3 x1 y1 = 0" "pw x1 y1 x2 y2 x3 y3 x2 y2 = 0" "pw x1 y1 x2 y2 x3 y3 x3 y3 = 0"
  by (simp_all add: pw_def det_a_def det_b_def det_c_def det_d_def algebra_simps)

lemma circle_test_pw:
  fixes a b c d x y :: real
  assumes "a \<noteq> 0"
  shows "((x - (- b / (2 * a))) * (x - (- b / (2 * a))) + (y - (- c / (2 * a))) * (y - (- c / (2 * a)))
          < (b * b + c * c - 4 * a * d) / (4 * a * a))
       \<longleftrightarrow> a * (a * (x * x + y * y) + b * x + c * y + d) < 0"
proof -
  have pos: "0 < 4 * a * a" proof -
    have "0 < a * a" using assms not_real_square_gt_zero [of a] by blast
    then show ?thesis by simp
  qed
  have e1: "((x - (- b / (2 * a))) * (x - (- b / (2 * a))) + (y - (- c / (2 * a))) * (y - (- c / (2 * a)))) * (4 * a * a)
        = (2 * a * x + b) * (2 * a * x + b) + (2 * a * y + c) * (2 * a * y + c)"
    using assms by (simp add: field_simps)
  have e2: "(b * b + c * c - 4 * a * d) / (4 * a * a) * (4 * a * a) = b * b + c * c - 4 * a * d"
    using assms by simp
  have "((x - (- b / (2 * a))) * (x - (- b / (2 * a))) + (y - (- c / (2 * a))) * (y - (- c / (2 * a)))
          < (b * b + c * c - 4 * a * d) / (4 * a * a))
      \<longleftrightarrow> ((x - (- b / (2 * a))) * (x - (- b / (2 * a))) + (y - (- c / (2 * a))) * (y - (- c / (2 * a)))) * (4 * a * a)
          < (b * b + c * c - 4 * a * d) / (4 * a * a) * (4 * a * a)"
    using pos by (simp only: mult_less_cancel_right_pos)
  also have "\<dots> \<longleftrightarrow> (2 * a * x + b) * (2 * a * x + b) + (2 * a * y + c) * (2 * a * y + c) < b * b + c * c - 4 * a * d"
    by (simp only: e1 e2)
  also have "\<dots> \<longleftrightarrow> 4 * (a * (a * (x * x + y * y) + b * x + c * y + d)) < 0"
    by (simp add: algebra_simps)
  also have "\<dots> \<longleftrightarrow> a * (a * (x * x + y * y) + b * x + c * y + d) < 0"
    by simp
  finally show ?thesis .
qed

lemma lin_identity:
  fixes x1 y1 x2 y2 x3 y3 cx cy x y sA sB sC K s :: real
  shows "(x1 * (y2 - y3) - y1 * (x2 - x3) + x2 * y3 - x3 * y2) * s
       + (sA * (y3 - y2) + sB * (y1 - y3) + sC * (y2 - y1)) * x
       + (sA * (x2 - x3) + sB * (x3 - x1) + sC * (x1 - x2)) * y
       + (sA * (x3 * y2 - x2 * y3) + sB * (x1 * y3 - x3 * y1) + sC * (x2 * y1 - x1 * y2))
       - (x1 * (y2 - y3) - y1 * (x2 - x3) + x2 * y3 - x3 * y2) * (s - 2 * cx * x - 2 * cy * y + K)
        = - (x * ((y2 - y3) * (sA - 2 * cx * x1 - 2 * cy * y1 + K) + (y3 - y1) * (sB - 2 * cx * x2 - 2 * cy * y2 + K) + (y1 - y2) * (sC - 2 * cx * x3 - 2 * cy * y3 + K)))
          + y * ((x2 - x3) * (sA - 2 * cx * x1 - 2 * cy * y1 + K) + (x3 - x1) * (sB - 2 * cx * x2 - 2 * cy * y2 + K) + (x1 - x2) * (sC - 2 * cx * x3 - 2 * cy * y3 + K))
          - ((x2 * y3 - x3 * y2) * (sA - 2 * cx * x1 - 2 * cy * y1 + K) + (x3 * y1 - x1 * y3) * (sB - 2 * cx * x2 - 2 * cy * y2 + K) + (x1 * y2 - x2 * y1) * (sC - 2 * cx * x3 - 2 * cy * y3 + K))"
  by (simp add: algebra_simps)

lemma circle_unique:
  fixes x1 y1 x2 y2 x3 y3 cx cy r2 x y :: real
  assumes A: "on_circle cx cy r2 x1 y1" and B: "on_circle cx cy r2 x2 y2" and C: "on_circle cx cy r2 x3 y3"
  shows "pw x1 y1 x2 y2 x3 y3 x y =
         det_a x1 y1 x2 y2 x3 y3 * ((x - cx) * (x - cx) + (y - cy) * (y - cy) - r2)"
proof -
  define K where "K = cx * cx + cy * cy - r2"
  have q: "(u - cx) * (u - cx) + (v - cy) * (v - cy) - r2 = (u * u + v * v) - 2 * cx * u - 2 * cy * v + K" for u v
    by (simp add: K_def algebra_simps)
  have z: "(x1 * x1 + y1 * y1) - 2 * cx * x1 - 2 * cy * y1 + K = 0"
          "(x2 * x2 + y2 * y2) - 2 * cx * x2 - 2 * cy * y2 + K = 0"
          "(x3 * x3 + y3 * y3) - 2 * cx * x3 - 2 * cy * y3 + K = 0"
    using A B C by (simp_all only: on_circle_def q [symmetric])
  have "pw x1 y1 x2 y2 x3 y3 x y -
         det_a x1 y1 x2 y2 x3 y3 * ((x * x + y * y) - 2 * cx * x - 2 * cy * y + K)
       = - (x * ((y2 - y3) * ((x1 * x1 + y1 * y1) - 2 * cx * x1 - 2 * cy * y1 + K) +
                 (y3 - y1) * ((x2 * x2 + y2 * y2) - 2 * cx * x2 - 2 * cy * y2 + K) +
                 (y1 - y2) * ((x3 * x3 + y3 * y3) - 2 * cx * x3 - 2 * cy * y3 + K)))
          + y * ((x2 - x3) * ((x1 * x1 + y1 * y1) - 2 * cx * x1 - 2 * cy * y1 + K) +
                 (x3 - x1) * ((x2 * x2 + y2 * y2) - 2 * cx * x2 - 2 * cy * y2 + K) +
                 (x1 - x2) * ((x3 * x3 + y3 * y3) - 2 * cx * x3 - 2 * cy * y3 + K))
          - ((x2 * y3 - x3 * y2) * ((x1 * x1 + y1 * y1) - 2 * cx * x1 - 2 * cy * y1 + K) +
             (x3 * y1 - x1 * y3) * ((x2 * x2 + y2 * y2) - 2 * cx * x2 - 2 * cy * y2 + K) +
             (x1 * y2 - x2 * y1) * ((x3 * x3 + y3 * y3) - 2 * cx * x3 - 2 * cy * y3 + K))"
    unfolding pw_def det_a_def det_b_def det_c_def det_d_def by (rule lin_identity)
  also have "\<dots> = 0" unfolding z by simp
  finally have "pw x1 y1 x2 y2 x3 y3 x y =
         det_a x1 y1 x2 y2 x3 y3 * ((x * x + y * y) - 2 * cx * x - 2 * cy * y + K)"
    by simp
  then show ?thesis by (simp only: q)
qed

lemma isPointInCircumcircle_circ_test:
  "isPointInCircumcircle h t p =
     circ_test (position_x (h (p1 t))) (position_y (h (p1 t)))
               (position_x (h (p2 t))) (position_y (h (p2 t)))
               (position_x (h (p3 t))) (position_y (h (p3 t)))
               (position_x (h p)) (position_y (h p))"
  by (simp only: isPointInCircumcircle_def circ_test_def Let_def det_a_def det_b_def det_c_def det_d_def)

lemma circ_test_pw:
  "circ_test x1 y1 x2 y2 x3 y3 x y \<longleftrightarrow>
     \<not> \<bar>det_a x1 y1 x2 y2 x3 y3\<bar> < 1 / 1000000 \<and>
     det_a x1 y1 x2 y2 x3 y3 * pw x1 y1 x2 y2 x3 y3 x y < 0"
proof (cases "\<bar>det_a x1 y1 x2 y2 x3 y3\<bar> < 1 / 1000000")
  case True
  then show ?thesis by (simp only: circ_test_def if_True simp_thms)
next
  case False
  then have a0: "det_a x1 y1 x2 y2 x3 y3 \<noteq> 0" by auto
  show ?thesis
    using False circle_test_pw [OF a0]
    by (simp only: circ_test_def if_False pw_def simp_thms)
qed

lemma triangle_det_det_a:
  "triangle_det h t = det_a (position_x (h (p1 t))) (position_y (h (p1 t)))
               (position_x (h (p2 t))) (position_y (h (p2 t)))
               (position_x (h (p3 t))) (position_y (h (p3 t)))"
  by (simp only: triangle_det_def det_a_def Let_def)

lemma collinear_iff_det: "collinear h t \<longleftrightarrow> triangle_det h t = 0"
  unfolding collinear_def triangle_det_def Let_def by (simp add: algebra_simps)

lemma degenerate_not_in_circumcircle:
  "\<bar>triangle_det h t\<bar> < 1 / 1000000 \<Longrightarrow> \<not> isPointInCircumcircle h t p"
  by (simp only: isPointInCircumcircle_circ_test circ_test_pw triangle_det_det_a simp_thms)

lemma inside_iff_pw:
  assumes a0: "det_a x1 y1 x2 y2 x3 y3 \<noteq> 0"
  shows "(\<exists>cx cy r2. on_circle cx cy r2 x1 y1 \<and> on_circle cx cy r2 x2 y2 \<and> on_circle cx cy r2 x3 y3 \<and>
        (x - cx) * (x - cx) + (y - cy) * (y - cy) < r2) \<longleftrightarrow>
        det_a x1 y1 x2 y2 x3 y3 * pw x1 y1 x2 y2 x3 y3 x y < 0"
  (is "?E \<longleftrightarrow> ?P")
proof -
  define a where "a = det_a x1 y1 x2 y2 x3 y3"
  define b where "b = det_b x1 y1 x2 y2 x3 y3"
  define c where "c = det_c x1 y1 x2 y2 x3 y3"
  define d where "d = det_d x1 y1 x2 y2 x3 y3"
  have a0: "a \<noteq> 0" using assms by (simp add: a_def)
  have asq: "0 < a * a" using a0 not_real_square_gt_zero [of a] by blast
  have k: "4 * a * a \<noteq> 0" using a0 by simp
  have onc: "on_circle (- b / (2 * a)) (- c / (2 * a)) ((b * b + c * c - 4 * a * d) / (4 * a * a)) u v"
    if z: "a * (u * u + v * v) + b * u + c * v + d = 0" for u v
  proof -
    have "((u - (- b / (2 * a))) * (u - (- b / (2 * a))) + (v - (- c / (2 * a))) * (v - (- c / (2 * a)))) * (4 * a * a)
        = (2 * a * u + b) * (2 * a * u + b) + (2 * a * v + c) * (2 * a * v + c)"
      using a0 by (simp add: field_simps)
    also have "\<dots> = 4 * a * (a * (u * u + v * v) + b * u + c * v + d) + (b * b + c * c - 4 * a * d)"
      by (simp add: algebra_simps)
    also have "\<dots> = b * b + c * c - 4 * a * d" by (simp add: z)
    finally have E: "((u - (- b / (2 * a))) * (u - (- b / (2 * a))) + (v - (- c / (2 * a))) * (v - (- c / (2 * a)))) * (4 * a * a)
       = b * b + c * c - 4 * a * d" .
    show ?thesis
      unfolding on_circle_def by (rule iffD2 [OF nonzero_eq_divide_eq [OF k] E])
  qed
  have v1: "a * (x1 * x1 + y1 * y1) + b * x1 + c * y1 + d = 0"
    using pw_vertices(1) [of x1 y1 x2 y2 x3 y3] by (simp only: pw_def a_def b_def c_def d_def)
  have v2: "a * (x2 * x2 + y2 * y2) + b * x2 + c * y2 + d = 0"
    using pw_vertices(2) [of x1 y1 x2 y2 x3 y3] by (simp only: pw_def a_def b_def c_def d_def)
  have v3: "a * (x3 * x3 + y3 * y3) + b * x3 + c * y3 + d = 0"
    using pw_vertices(3) [of x1 y1 x2 y2 x3 y3] by (simp only: pw_def a_def b_def c_def d_def)
  show ?thesis
  proof
    assume ?P
    then have "a * (a * (x * x + y * y) + b * x + c * y + d) < 0"
      by (simp only: pw_def a_def b_def c_def d_def)
    then have "(x - (- b / (2 * a))) * (x - (- b / (2 * a))) + (y - (- c / (2 * a))) * (y - (- c / (2 * a)))
       < (b * b + c * c - 4 * a * d) / (4 * a * a)"
      by (simp only: circle_test_pw [OF a0])
    with onc [OF v1] onc [OF v2] onc [OF v3] show ?E
      by blast
  next
    assume ?E
    then obtain cx cy r2 where A: "on_circle cx cy r2 x1 y1" and B: "on_circle cx cy r2 x2 y2"
      and C: "on_circle cx cy r2 x3 y3" and P: "(x - cx) * (x - cx) + (y - cy) * (y - cy) - r2 < 0"
      by auto
    have "a * pw x1 y1 x2 y2 x3 y3 x y = (a * a) * ((x - cx) * (x - cx) + (y - cy) * (y - cy) - r2)"
      by (simp add: circle_unique [OF A B C] a_def)
    also have "\<dots> < 0" using asq P by (rule mult_pos_neg)
    finally show ?P by (simp only: a_def)
  qed
qed

lemma strictly_inside_iff_pw:
  assumes "triangle_det h t \<noteq> 0"
  shows "strictly_inside_circumcircle h t p \<longleftrightarrow>
     triangle_det h t *
       pw (position_x (h (p1 t))) (position_y (h (p1 t)))
          (position_x (h (p2 t))) (position_y (h (p2 t)))
          (position_x (h (p3 t))) (position_y (h (p3 t)))
          (position_x (h p)) (position_y (h p)) < 0"
  using assms unfolding strictly_inside_circumcircle_def triangle_det_det_a
  by (rule inside_iff_pw)

lemma isPointInCircumcircle_spec:
  assumes "1 / 1000000 \<le> \<bar>triangle_det h t\<bar>"
  shows "isPointInCircumcircle h t p \<longleftrightarrow> strictly_inside_circumcircle h t p"
proof -
  have n: "\<not> \<bar>triangle_det h t\<bar> < 1 / 1000000" using assms by simp
  then have a0: "triangle_det h t \<noteq> 0" by auto
  show ?thesis
    using n by (simp only: strictly_inside_iff_pw [OF a0] isPointInCircumcircle_circ_test
        circ_test_pw triangle_det_det_a [symmetric] simp_thms)
qed

section \<open>The triangle list\<close>

lemma isDelaunay_loop_iff:
  "isDelaunay_loop h pts tri i j k ls \<longleftrightarrow>
     (\<forall>l \<in> set ls. l \<noteq> i \<and> l \<noteq> j \<and> l \<noteq> k \<longrightarrow> \<not> isPointInCircumcircle h tri (pts ! l))"
  by (induction ls) auto

lemma set_candidate:
  "set (candidate h pts i j k) =
     (if \<forall>l < length pts. l \<noteq> i \<and> l \<noteq> j \<and> l \<noteq> k \<longrightarrow>
            \<not> isPointInCircumcircle h (Triangle (pts ! i) (pts ! j) (pts ! k)) (pts ! l)
      then {Triangle (pts ! i) (pts ! j) (pts ! k)} else {})"
  by (auto simp: candidate_def Let_def isDelaunay_loop_iff)

lemma set_findDelaunayTriangles:
  "set (findDelaunayTriangles h pts) =
     {Triangle (pts ! i) (pts ! j) (pts ! k) | i j k.
        i < j \<and> j < k \<and> k < length pts \<and>
        (\<forall>l < length pts. l \<noteq> i \<and> l \<noteq> j \<and> l \<noteq> k \<longrightarrow>
            \<not> isPointInCircumcircle h (Triangle (pts ! i) (pts ! j) (pts ! k)) (pts ! l))}"
  (is "?L = ?R")
proof (cases "length pts < 3")
  case True
  then have "?R = {}" by auto
  with True show ?thesis by (simp add: findDelaunayTriangles_def)
next
  case False
  show ?thesis
  proof (rule set_eqI)
    fix t
    have "t \<in> ?L \<longleftrightarrow> (\<exists>i \<in> {0..<length pts - 2}. \<exists>j \<in> {Suc i..<length pts - 1}.
            \<exists>k \<in> {Suc j..<length pts}. t \<in> set (candidate h pts i j k))"
      using False by (simp add: findDelaunayTriangles_def)
    also have "\<dots> \<longleftrightarrow> (\<exists>i j k. i < j \<and> j < k \<and> k < length pts \<and> t \<in> set (candidate h pts i j k))"
    proof
      assume "\<exists>i \<in> {0..<length pts - 2}. \<exists>j \<in> {Suc i..<length pts - 1}.
            \<exists>k \<in> {Suc j..<length pts}. t \<in> set (candidate h pts i j k)"
      then obtain i j k where "i < length pts - 2" "Suc i \<le> j" "j < length pts - 1" "Suc j \<le> k"
        "k < length pts" "t \<in> set (candidate h pts i j k)"
        by auto
      then have "i < j \<and> j < k \<and> k < length pts \<and> t \<in> set (candidate h pts i j k)" by simp
      then show "\<exists>i j k. i < j \<and> j < k \<and> k < length pts \<and> t \<in> set (candidate h pts i j k)"
        by blast
    next
      assume "\<exists>i j k. i < j \<and> j < k \<and> k < length pts \<and> t \<in> set (candidate h pts i j k)"
      then obtain i j k where ijk: "i < j" "j < k" "k < length pts" and t: "t \<in> set (candidate h pts i j k)"
        by blast
      have "i \<in> {0..<length pts - 2}" "j \<in> {Suc i..<length pts - 1}" "k \<in> {Suc j..<length pts}"
        using ijk by auto
      with t show "\<exists>i \<in> {0..<length pts - 2}. \<exists>j \<in> {Suc i..<length pts - 1}.
            \<exists>k \<in> {Suc j..<length pts}. t \<in> set (candidate h pts i j k)"
        by blast
    qed
    also have "\<dots> \<longleftrightarrow> t \<in> ?R"
      by (auto simp: set_candidate split: if_splits)
    finally show "t \<in> ?L \<longleftrightarrow> t \<in> ?R" .
  qed
qed

lemma foldl_drawTriangle_frame:
  "heap (foldl drawTriangle s ts) = heap s \<and> points (foldl drawTriangle s ts) = points s \<and>
   triangles (foldl drawTriangle s ts) = triangles s"
  by (induction ts arbitrary: s) (simp_all add: drawTriangle_def Let_def)

lemma triangles_calculateAndDraw:
  "triangles (calculateAndDraw s) =
     (if 3 \<le> length (points s) then findDelaunayTriangles (heap s) (points s) else triangles s)"
  by (simp add: calculateAndDraw_def Let_def clearTriangleMeshes_def foldl_drawTriangle_frame)

lemma upt4: "[0..<4] = [0, 1, 2, 3]" "[0..<2] = [0,1]" "[0..<3] = [0,1,2]" "[1..<3] = [1,2]" "[2..<3] = [2]"
 "[1..<4] = [1,2,3]" "[2..<4] = [2,3]" "[3..<4] = [3]" "[3..<3] = []" "[4..<4] = []"
  by (simp_all add: upt_rec)

lemma triples_below_4:
  fixes i j k :: nat
  assumes "i < j" "j < k" "k < 4"
  shows "(i, j, k) \<in> {(0, Suc 0, 2), (0, Suc 0, 3), (0, 2, 3), (Suc 0, 2, 3)}"
proof -
  have "k = 2 \<or> k = 3" using assms by arith
  moreover have "k = 2 \<Longrightarrow> i = 0 \<and> j = Suc 0" using assms by arith
  moreover have "k = 3 \<Longrightarrow> (i = 0 \<and> j = Suc 0) \<or> (i = 0 \<and> j = 2) \<or> (i = Suc 0 \<and> j = 2)"
    using assms by arith
  ultimately show ?thesis by auto
qed

lemma store_of_4:
  "position_x (store_of [a, b, c, d] 0) = fst a" "position_y (store_of [a, b, c, d] 0) = snd a"
  "position_x (store_of [a, b, c, d] (Suc 0)) = fst b" "position_y (store_of [a, b, c, d] (Suc 0)) = snd b"
  "position_x (store_of [a, b, c, d] 2) = fst c" "position_y (store_of [a, b, c, d] 2) = snd c"
  "position_x (store_of [a, b, c, d] 3) = fst d" "position_y (store_of [a, b, c, d] 3) = snd d"
  unfolding store_of_def by simp_all

lemma store_of_3:
  "position_x (store_of [a, b, c] 0) = fst a" "position_y (store_of [a, b, c] 0) = snd a"
  "position_x (store_of [a, b, c] (Suc 0)) = fst b" "position_y (store_of [a, b, c] (Suc 0)) = snd b"
  "position_x (store_of [a, b, c] 2) = fst c" "position_y (store_of [a, b, c] 2) = snd c"
  unfolding store_of_def by simp_all

lemma state_of_4:
  "heap (state_of [a, b, c, d]) = store_of [a, b, c, d]"
  "points (state_of [a, b, c, d]) = [0, Suc 0, 2, 3]"
  by (simp_all add: state_of_def upt4 initial_state_def)

lemma near_heap_simps:
  "position_x (near_heap 0) = 0" "position_y (near_heap 0) = 0"
  "position_x (near_heap 1) = 1" "position_y (near_heap 1) = 0"
  "position_x (near_heap 2) = 0" "position_y (near_heap 2) = 1 / 16777216"
  "position_x (near_heap 3) = 1 / 2" "position_y (near_heap 3) = 1 / 8"
  "position_x (near_heap (Suc 0)) = 1" "position_y (near_heap (Suc 0)) = 0"
  unfolding near_heap_def store_of_def by simp_all

section \<open>Collinear points (C2)\<close>

text \<open>
  Claim C2, as amended. When the determinant \<open>a\<close> of an index triple \<open>i < j < k\<close> is
  below \<open>1e-6\<close> in absolute value, \<^verbatim>\<open>isPointInCircumcircle\<close> answers false for
  every point, and the triangle of the triple is in the list returned by
  \<^verbatim>\<open>findDelaunayTriangles\<close>, whatever other points there are.
\<close>

theorem degenerate_retained:
  assumes "i < j" "j < k" "k < length pts"
    and "\<bar>triangle_det h (Triangle (pts ! i) (pts ! j) (pts ! k))\<bar> < 1 / 1000000"
  shows "\<not> isPointInCircumcircle h (Triangle (pts ! i) (pts ! j) (pts ! k)) p \<and>
         Triangle (pts ! i) (pts ! j) (pts ! k) \<in> set (findDelaunayTriangles h pts)"
proof -
  have n: "\<not> isPointInCircumcircle h (Triangle (pts ! i) (pts ! j) (pts ! k)) q" for q
    using assms(4) by (rule degenerate_not_in_circumcircle)
  have "Triangle (pts ! i) (pts ! j) (pts ! k) \<in> set (findDelaunayTriangles h pts)"
    unfolding set_findDelaunayTriangles using assms(1-3) n by blast
  with n show ?thesis by blast
qed

text \<open>An instance: the collinear points \<open>(0,0)\<close>, \<open>(1,0)\<close>, \<open>(2,0)\<close> with a fourth point.\<close>

theorem degenerate_retained_witness:
  "Triangle 0 1 2 \<in> set (findDelaunayTriangles (store_of [(0, 0), (1, 0), (2, 0), (1, 1)]) [0, 1, 2, 3])"
proof -
  have "\<bar>triangle_det (store_of [(0, 0), (1, 0), (2, 0), (1, 1)])
          (Triangle ([0, Suc 0, 2, 3] ! 0) ([0, Suc 0, 2, 3] ! Suc 0) ([0, Suc 0, 2, 3] ! 2))\<bar> < 1 / 1000000"
    by (simp add: triangle_det_def store_of_4)
  from degenerate_retained [of 0 "Suc 0" 2 "[0, Suc 0, 2, 3]", OF _ _ _ this]
  show ?thesis by simp
qed

text \<open>
  Claim C2 as it is written says the triangle of three collinear points is never
  returned. It is the whole result for the three points alone, and it is returned
  with a fourth point present.
\<close>

theorem collinear_retained_counterexample:
  "collinear (store_of [(0, 0), (1, 0), (2, 0)]) (Triangle 0 1 2) \<and>
   \<bar>triangle_det (store_of [(0, 0), (1, 0), (2, 0)]) (Triangle 0 1 2)\<bar> < 1 / 1000000 \<and>
   findDelaunayTriangles (store_of [(0, 0), (1, 0), (2, 0)]) [0, 1, 2] = [Triangle 0 1 2] \<and>
   Triangle 0 1 2 \<in> set (findDelaunayTriangles (store_of [(0, 0), (1, 0), (2, 0), (1, 1)]) [0, 1, 2, 3])"
  by (simp add: collinear_def triangle_det_def store_of_3 store_of_4 findDelaunayTriangles_def upt4 candidate_def
      isPointInCircumcircle_def)

section \<open>Rounding errors\<close>

lemma roundTiesToEven_error: "\<bar>of_int (roundTiesToEven r) - r\<bar> \<le> 1 / 2"
  unfolding roundTiesToEven_def Let_def by (auto; linarith)

lemma to_double_error: "\<bar>to_double x - x\<bar> \<le> \<bar>x\<bar> / 2 ^ 53 + 1 / 2 ^ 1075"
proof -
  define Q :: real where "Q = 2 ^ 1074"
  define y where "y = \<bar>x\<bar> * Q"
  define e where "e = nat (bitlen \<lfloor>y\<rfloor> - 53)"
  define p :: real where "p = 2 ^ e"
  define m where "m = roundTiesToEven (y / p)"
  have Q0: "0 < Q" by (simp add: Q_def)
  have p0: "0 < p" by (simp add: p_def)
  have y0: "0 \<le> y" using Q0 by (simp add: y_def)
  have r: "to_double x = sgn x * (of_int m * p / Q)"
    by (simp only: to_double_def Let_def y_def e_def m_def p_def Q_def)
  have me: "\<bar>of_int m - y / p\<bar> \<le> 1 / 2" unfolding m_def by (rule roundTiesToEven_error)
  have "\<bar>of_int m * p - y\<bar> = \<bar>(of_int m - y / p) * p\<bar>"
    using p0 by (simp add: left_diff_distrib)
  also have "\<dots> = \<bar>of_int m - y / p\<bar> * p" using p0 by (simp add: abs_mult)
  also have "\<dots> \<le> 1 / 2 * p" using me p0 by (intro mult_right_mono) simp_all
  finally have my: "\<bar>of_int m * p - y\<bar> \<le> p / 2" by simp
  have ey: "p / 2 \<le> y / 2 ^ 53 + 1 / 2"
  proof (cases "e = 0")
    case True
    then show ?thesis using y0 by (simp add: p_def)
  next
    case False
    then have fl: "bitlen \<lfloor>y\<rfloor> = int e + 53" by (simp add: e_def)
    then have pos: "0 < \<lfloor>y\<rfloor>" by (cases "0 < \<lfloor>y\<rfloor>") (simp_all add: bitlen_alt_def)
    have "(2::int) ^ nat (bitlen \<lfloor>y\<rfloor> - 1) \<le> \<lfloor>y\<rfloor>"
      using bitlen_bounds [OF pos] by simp
    then have "(2::int) ^ (52 + e) \<le> \<lfloor>y\<rfloor>" by (simp add: fl nat_add_distrib)
    then have "real_of_int ((2::int) ^ (52 + e)) \<le> real_of_int \<lfloor>y\<rfloor>" by (rule iffD2 [OF of_int_le_iff])
    also have "\<dots> \<le> y" by simp
    finally have "2 ^ (52 + e) \<le> y" by simp
    then have "p * 2 ^ 52 \<le> y" by (simp add: power_add p_def)
    then have "p / 2 \<le> y / 2 ^ 53" by simp
    then show ?thesis by simp
  qed
  have "\<bar>to_double x - x\<bar> = \<bar>of_int m * p - y\<bar> / Q"
  proof (cases "x = 0")
    case True
    then have "y = 0" by (simp add: y_def)
    then have "m = 0" by (simp add: m_def roundTiesToEven_def)
    with True \<open>y = 0\<close> r show ?thesis by simp
  next
    case False
    have x: "x = sgn x * (y / Q)" using Q0 by (simp add: y_def sgn_real_def)
    have "to_double x - x = sgn x * (of_int m * p / Q) - sgn x * (y / Q)"
      using x r by simp
    also have "\<dots> = sgn x * ((of_int m * p - y) / Q)"
      by (simp add: right_diff_distrib diff_divide_distrib)
    finally have "\<bar>to_double x - x\<bar> = \<bar>sgn x\<bar> * \<bar>(of_int m * p - y) / Q\<bar>"
      by (simp only: abs_mult)
    then show ?thesis using False Q0 by (simp add: sgn_real_def)
  qed
  also have "\<dots> \<le> (y / 2 ^ 53 + 1 / 2) / Q"
    using my ey Q0 by (intro divide_right_mono) simp_all
  also have "\<dots> = \<bar>x\<bar> / 2 ^ 53 + 1 / (2 * Q)"
    using Q0 by (simp add: y_def add_divide_distrib)
  also have "2 * Q = 2 ^ 1075" unfolding Q_def by (simp only: power_Suc [symmetric]) simp
  finally show ?thesis .
qed

lemma to_double_near:
  assumes "\<bar>v - t\<bar> \<le> D" and "\<bar>v\<bar> \<le> V" and "D + V / 2 ^ 53 + 1 / 2 ^ 1075 \<le> E"
  shows "\<bar>to_double v - t\<bar> \<le> E"
proof -
  have "\<bar>to_double v - t\<bar> \<le> \<bar>to_double v - v\<bar> + \<bar>v - t\<bar>" by simp
  also have "\<dots> \<le> (\<bar>v\<bar> / 2 ^ 53 + 1 / 2 ^ 1075) + D"
    using to_double_error [of v] assms(1) by (rule add_mono)
  also have "\<dots> \<le> (V / 2 ^ 53 + 1 / 2 ^ 1075) + D"
    using assms(2) by (simp add: divide_right_mono)
  also have "\<dots> \<le> E" using assms(3) by simp
  finally show ?thesis .
qed

lemma ap_var: "\<bar>t\<bar> \<le> B \<Longrightarrow> ap B 0 t t"
  by (simp add: ap_def)

lemma ap_neg: "ap B E x t \<Longrightarrow> ap B E (- x) (- t)"
  by (simp add: ap_def abs_minus_commute)

lemma ap_add:
  assumes "ap B1 E1 x1 t1" and "ap B2 E2 x2 t2" and "B1 + B2 \<le> B"
    and "E1 + E2 + (B1 + B2 + E1 + E2) / 2 ^ 53 + 1 / 2 ^ 1075 \<le> E"
  shows "ap B E (fadd x1 x2) (t1 + t2)"
proof -
  have b: "\<bar>t1\<bar> \<le> B1" "\<bar>t2\<bar> \<le> B2" and e: "\<bar>x1 - t1\<bar> \<le> E1" "\<bar>x2 - t2\<bar> \<le> E2"
    using assms(1,2) by (simp_all add: ap_def)
  have d: "\<bar>(x1 + x2) - (t1 + t2)\<bar> \<le> E1 + E2" using e by linarith
  have v: "\<bar>x1 + x2\<bar> \<le> B1 + B2 + E1 + E2" using b e by linarith
  have "\<bar>to_double (x1 + x2) - (t1 + t2)\<bar> \<le> E" using d v assms(4) by (rule to_double_near)
  moreover have "\<bar>t1 + t2\<bar> \<le> B" using b assms(3) by linarith
  ultimately show ?thesis by (simp add: ap_def fadd_def)
qed

lemma ap_sub:
  assumes "ap B1 E1 x1 t1" and "ap B2 E2 x2 t2" and "B1 + B2 \<le> B"
    and "E1 + E2 + (B1 + B2 + E1 + E2) / 2 ^ 53 + 1 / 2 ^ 1075 \<le> E"
  shows "ap B E (fsub x1 x2) (t1 - t2)"
proof -
  have b: "\<bar>t1\<bar> \<le> B1" "\<bar>t2\<bar> \<le> B2" and e: "\<bar>x1 - t1\<bar> \<le> E1" "\<bar>x2 - t2\<bar> \<le> E2"
    using assms(1,2) by (simp_all add: ap_def)
  have d: "\<bar>(x1 - x2) - (t1 - t2)\<bar> \<le> E1 + E2" using e by linarith
  have v: "\<bar>x1 - x2\<bar> \<le> B1 + B2 + E1 + E2" using b e by linarith
  have "\<bar>to_double (x1 - x2) - (t1 - t2)\<bar> \<le> E" using d v assms(4) by (rule to_double_near)
  moreover have "\<bar>t1 - t2\<bar> \<le> B" using b assms(3) by linarith
  ultimately show ?thesis by (simp add: ap_def fsub_def)
qed

lemma abs_le_sum: "\<bar>x - t\<bar> \<le> E \<Longrightarrow> \<bar>t\<bar> \<le> B \<Longrightarrow> \<bar>x\<bar> \<le> B + E" for x t :: real
  by linarith

lemma ap_mul:
  assumes "ap B1 E1 x1 t1" and "ap B2 E2 x2 t2" and "B1 * B2 \<le> B"
    and "(B1 + E1) * E2 + B2 * E1 + (B1 + E1) * (B2 + E2) / 2 ^ 53 + 1 / 2 ^ 1075 \<le> E"
  shows "ap B E (fmul x1 x2) (t1 * t2)"
proof -
  have b: "\<bar>t1\<bar> \<le> B1" "\<bar>t2\<bar> \<le> B2" and e: "\<bar>x1 - t1\<bar> \<le> E1" "\<bar>x2 - t2\<bar> \<le> E2"
    using assms(1,2) by (simp_all add: ap_def)
  have a1: "\<bar>x1\<bar> \<le> B1 + E1" using e(1) b(1) by (rule abs_le_sum)
  have a2: "\<bar>x2\<bar> \<le> B2 + E2" using e(2) b(2) by (rule abs_le_sum)
  have "x1 * x2 - t1 * t2 = x1 * (x2 - t2) + t2 * (x1 - t1)" by (simp add: algebra_simps)
  then have "\<bar>x1 * x2 - t1 * t2\<bar> \<le> \<bar>x1 * (x2 - t2)\<bar> + \<bar>t2 * (x1 - t1)\<bar>" by simp
  also have "\<dots> = \<bar>x1\<bar> * \<bar>x2 - t2\<bar> + \<bar>t2\<bar> * \<bar>x1 - t1\<bar>" by (simp only: abs_mult)
  also have "\<dots> \<le> (B1 + E1) * E2 + B2 * E1"
    using a1 a2 b e by (intro add_mono mult_mono) simp_all
  finally have d: "\<bar>x1 * x2 - t1 * t2\<bar> \<le> (B1 + E1) * E2 + B2 * E1" .
  have "\<bar>x1 * x2\<bar> = \<bar>x1\<bar> * \<bar>x2\<bar>" by (rule abs_mult)
  also have "\<dots> \<le> (B1 + E1) * (B2 + E2)" using a1 a2 by (intro mult_mono) simp_all
  finally have v: "\<bar>x1 * x2\<bar> \<le> (B1 + E1) * (B2 + E2)" .
  have "\<bar>to_double (x1 * x2) - t1 * t2\<bar> \<le> E" using d v by (rule to_double_near) (use assms(4) in simp)
  moreover have "\<bar>t1 * t2\<bar> \<le> B"
  proof -
    have "\<bar>t1 * t2\<bar> = \<bar>t1\<bar> * \<bar>t2\<bar>" by (rule abs_mult)
    also have "\<dots> \<le> B1 * B2" using b by (intro mult_mono) simp_all
    finally show ?thesis using assms(3) by simp
  qed
  ultimately show ?thesis by (simp add: ap_def fmul_def)
qed

lemma rel_of_ap:
  assumes "ap B E x t" and "L \<le> \<bar>t\<bar>" and "0 < L" and "E \<le> r * L"
  shows "rel r x t"
proof -
  have e: "\<bar>x - t\<bar> \<le> E" using assms(1) by (simp add: ap_def)
  then have "0 \<le> E" by linarith
  then have "0 \<le> r * L" using assms(4) by linarith
  then have r0: "0 \<le> r" using assms(3) by (simp add: zero_le_mult_iff)
  have "r * L \<le> r * \<bar>t\<bar>" using r0 assms(2) by (rule mult_left_mono [rotated])
  then show ?thesis using e assms(4) by (simp add: rel_def)
qed

lemma rel_exact: "rel 0 t t"
  by (simp add: rel_def)

lemma rel_mul:
  assumes "rel r1 x1 t1" and "rel r2 x2 t2" and "L \<le> \<bar>t1 * t2\<bar>" and "0 < L"
    and "0 \<le> r1" and "0 \<le> r2"
    and "r1 + r2 + r1 * r2 + (1 + r1) * (1 + r2) / 2 ^ 53 + (1 / 2 ^ 1075) / L \<le> r"
  shows "rel r (fmul x1 x2) (t1 * t2)"
proof -
  define T1 where "T1 = \<bar>t1\<bar>"
  define T2 where "T2 = \<bar>t2\<bar>"
  have T: "0 \<le> T1" "0 \<le> T2" by (simp_all add: T1_def T2_def)
  have e: "\<bar>x1 - t1\<bar> \<le> r1 * T1" "\<bar>x2 - t2\<bar> \<le> r2 * T2"
    using assms(1,2) by (simp_all add: rel_def T1_def T2_def)
  have a1: "\<bar>x1\<bar> \<le> (1 + r1) * T1"
  proof -
    have "\<bar>x1\<bar> \<le> T1 + r1 * T1" using e(1) unfolding T1_def by linarith
    then show ?thesis by (simp add: algebra_simps)
  qed
  have a2: "\<bar>x2\<bar> \<le> (1 + r2) * T2"
  proof -
    have "\<bar>x2\<bar> \<le> T2 + r2 * T2" using e(2) unfolding T2_def by linarith
    then show ?thesis by (simp add: algebra_simps)
  qed
  have TT: "\<bar>t1 * t2\<bar> = T1 * T2" by (simp add: T1_def T2_def abs_mult)
  have "x1 * x2 - t1 * t2 = x1 * (x2 - t2) + t2 * (x1 - t1)" by (simp add: algebra_simps)
  then have "\<bar>x1 * x2 - t1 * t2\<bar> \<le> \<bar>x1 * (x2 - t2)\<bar> + \<bar>t2 * (x1 - t1)\<bar>" by simp
  also have "\<dots> = \<bar>x1\<bar> * \<bar>x2 - t2\<bar> + T2 * \<bar>x1 - t1\<bar>" by (simp only: abs_mult T2_def)
  also have "\<dots> \<le> ((1 + r1) * T1) * (r2 * T2) + T2 * (r1 * T1)"
    using a1 e T assms(5,6) by (intro add_mono mult_mono) simp_all
  also have "\<dots> = (r1 + r2 + r1 * r2) * (T1 * T2)" by (simp add: algebra_simps)
  finally have d: "\<bar>x1 * x2 - t1 * t2\<bar> \<le> (r1 + r2 + r1 * r2) * (T1 * T2)" .
  have "\<bar>x1 * x2\<bar> = \<bar>x1\<bar> * \<bar>x2\<bar>" by (rule abs_mult)
  also have "\<dots> \<le> ((1 + r1) * T1) * ((1 + r2) * T2)"
    using a1 a2 T assms(5,6) by (intro mult_mono) simp_all
  also have "\<dots> = (1 + r1) * (1 + r2) * (T1 * T2)" by (simp add: algebra_simps)
  finally have v: "\<bar>x1 * x2\<bar> \<le> (1 + r1) * (1 + r2) * (T1 * T2)" .
  have L: "L \<le> T1 * T2" using assms(3) by (simp only: TT)
  then have P: "0 < T1 * T2" using assms(4) by linarith
  have "(1 / 2 ^ 1075) / L * L \<le> (1 / 2 ^ 1075) / L * (T1 * T2)"
    using L assms(4) by (intro mult_left_mono) simp_all
  then have h: "1 / 2 ^ 1075 \<le> (1 / 2 ^ 1075) / L * (T1 * T2)" using assms(4) by simp
  have "\<bar>to_double (x1 * x2) - t1 * t2\<bar> \<le>
        (r1 + r2 + r1 * r2) * (T1 * T2) + ((1 + r1) * (1 + r2) * (T1 * T2)) / 2 ^ 53 + (1 / 2 ^ 1075) / L * (T1 * T2)"
    using d v by (rule to_double_near) (use h in simp)
  also have "\<dots> = (r1 + r2 + r1 * r2 + (1 + r1) * (1 + r2) / 2 ^ 53 + (1 / 2 ^ 1075) / L) * (T1 * T2)"
    by (simp add: algebra_simps)
  also have "\<dots> \<le> r * (T1 * T2)" using assms(7) P by (intro mult_right_mono) simp_all
  finally show ?thesis by (simp add: rel_def fmul_def TT)
qed

lemma ap_div_rel:
  assumes "ap Bx Fx x tx" and "rel r y ty" and "L \<le> \<bar>ty\<bar>" and "0 < L" and "0 \<le> r" and "r < 1"
    and "Bx / L \<le> B"
    and "(Fx / L + Bx / L * r) / (1 - r) + (Bx + Fx) / (L * (1 - r)) / 2 ^ 53 + 1 / 2 ^ 1075 \<le> E"
  shows "ap B E (fdiv x y) (tx / ty)"
proof -
  define T where "T = \<bar>ty\<bar>"
  have T0: "0 < T" and LT: "L \<le> T" using assms(3,4) by (simp_all add: T_def)
  have ty0: "ty \<noteq> 0" using T0 by (auto simp: T_def)
  have bx: "\<bar>tx\<bar> \<le> Bx" and ex: "\<bar>x - tx\<bar> \<le> Fx" using assms(1) by (simp_all add: ap_def)
  have Bx0: "0 \<le> Bx" and Fx0: "0 \<le> Fx" using bx ex by linarith+
  have ey: "\<bar>y - ty\<bar> \<le> r * T" using assms(2) by (simp add: rel_def T_def)
  have r1: "0 < 1 - r" using assms(6) by simp
  have ylow: "(1 - r) * T \<le> \<bar>y\<bar>"
  proof -
    have "T - r * T \<le> \<bar>y\<bar>" using ey unfolding T_def by linarith
    then show ?thesis by (simp add: algebra_simps)
  qed
  have yT: "0 < (1 - r) * T" using r1 T0 by simp
  then have y0: "0 < \<bar>y\<bar>" using ylow by linarith
  then have yn: "y \<noteq> 0" by auto
  have low: "L * (1 - r) \<le> \<bar>y\<bar>"
  proof -
    have "L * (1 - r) \<le> T * (1 - r)" using LT r1 by (intro mult_right_mono) simp_all
    then show ?thesis using ylow by (simp add: mult.commute)
  qed
  have lpos: "0 < L * (1 - r)" using assms(4) r1 by simp
  have xb: "\<bar>x\<bar> \<le> Bx + Fx" using ex bx by (rule abs_le_sum)
  have v: "\<bar>x / y\<bar> \<le> (Bx + Fx) / (L * (1 - r))"
  proof -
    have "\<bar>x / y\<bar> = \<bar>x\<bar> / \<bar>y\<bar>" by (rule abs_divide)
    also have "\<dots> \<le> (Bx + Fx) / \<bar>y\<bar>" using xb y0 by (intro divide_right_mono) simp_all
    also have "\<dots> \<le> (Bx + Fx) / (L * (1 - r))"
      using low lpos Bx0 Fx0 by (intro divide_left_mono) simp_all
    finally show ?thesis .
  qed
  have q: "\<bar>tx / ty\<bar> \<le> Bx / L"
  proof -
    have "\<bar>tx / ty\<bar> = \<bar>tx\<bar> / T" by (simp add: T_def)
    also have "\<dots> \<le> Bx / T" using bx T0 by (intro divide_right_mono) simp_all
    also have "\<dots> \<le> Bx / L" using LT assms(4) Bx0 by (intro divide_left_mono) simp_all
    finally show ?thesis .
  qed
  have d: "\<bar>x / y - tx / ty\<bar> \<le> (Fx / L + Bx / L * r) / (1 - r)"
  proof -
    have "x / y - tx / ty = ((x - tx) - (tx / ty) * (y - ty)) / y"
      using yn ty0 by (simp add: field_simps)
    then have "\<bar>x / y - tx / ty\<bar> = \<bar>(x - tx) - (tx / ty) * (y - ty)\<bar> / \<bar>y\<bar>"
      by (simp only: abs_divide)
    also have "\<dots> \<le> (Fx + Bx / L * (r * T)) / \<bar>y\<bar>"
    proof (intro divide_right_mono)
      have "\<bar>(x - tx) - (tx / ty) * (y - ty)\<bar> \<le> \<bar>x - tx\<bar> + \<bar>(tx / ty) * (y - ty)\<bar>"
        by (rule abs_triangle_ineq4)
      also have "\<dots> = \<bar>x - tx\<bar> + \<bar>tx / ty\<bar> * \<bar>y - ty\<bar>" by (simp only: abs_mult)
      also have "\<dots> \<le> Fx + Bx / L * (r * T)"
        using ex q ey assms(4,5) Bx0 T0 by (intro add_mono mult_mono) simp_all
      finally show "\<bar>(x - tx) - (tx / ty) * (y - ty)\<bar> \<le> Fx + Bx / L * (r * T)" .
    qed simp
    also have "\<dots> \<le> (Fx + Bx / L * (r * T)) / ((1 - r) * T)"
      using ylow yT Fx0 Bx0 assms(4,5) T0 by (intro divide_left_mono) simp_all
    also have "\<dots> = (Fx / T + Bx / L * r) / (1 - r)"
      using T0 r1 by (simp add: field_simps)
    also have "\<dots> \<le> (Fx / L + Bx / L * r) / (1 - r)"
    proof -
      have "Fx / T \<le> Fx / L" using LT assms(4) Fx0 by (intro divide_left_mono) simp_all
      then show ?thesis using r1 by (intro divide_right_mono) simp_all
    qed
    finally show ?thesis .
  qed
  have "\<bar>to_double (x / y) - tx / ty\<bar> \<le> E" using d v assms(8) by (rule to_double_near)
  moreover have "\<bar>tx / ty\<bar> \<le> B" using q assms(7) by linarith
  ultimately show ?thesis by (simp add: ap_def fdiv_def)
qed

lemma ap_weaken: "ap B E x t \<Longrightarrow> B \<le> B' \<Longrightarrow> E \<le> E' \<Longrightarrow> ap B' E' x t"
  by (simp add: ap_def)

lemma ap_decide:
  assumes "ap B1 E1 x1 t1" and "ap B2 E2 x2 t2" and "E1 + E2 < m" and "m \<le> \<bar>t1 - t2\<bar>"
  shows "x1 < x2 \<longleftrightarrow> t1 < t2"
proof -
  have "\<bar>x1 - t1\<bar> \<le> E1" "\<bar>x2 - t2\<bar> \<le> E2" using assms(1,2) by (simp_all add: ap_def)
  with assms(3,4) show ?thesis by linarith
qed

lemma abs_sq_lower:
  fixes t L :: real
  assumes "L \<le> \<bar>t\<bar>" and "0 \<le> L"
  shows "4 * (L * L) \<le> \<bar>4 * t * t\<bar>"
proof -
  have "L * L \<le> \<bar>t\<bar> * \<bar>t\<bar>" using assms by (intro mult_mono) simp_all
  then show ?thesis by (simp add: abs_mult)
qed

lemma to_double_guard: "to_double (1 / 1000000) \<le> 1"
proof -
  have "\<bar>to_double (1 / 1000000) - 1 / 1000000\<bar> \<le> \<bar>1 / 1000000\<bar> / 2 ^ 53 + 1 / 2 ^ 1075"
    by (rule to_double_error)
  also have "\<dots> \<le> 1 / 2" by simp
  finally show ?thesis by linarith
qed

lemma det_a_double_near:
  fixes x1 y1 x2 y2 x3 y3 :: real
  assumes b_x1: "\<bar>x1\<bar> \<le> 1024"
    and b_y1: "\<bar>y1\<bar> \<le> 1024"
    and b_x2: "\<bar>x2\<bar> \<le> 1024"
    and b_y2: "\<bar>y2\<bar> \<le> 1024"
    and b_x3: "\<bar>x3\<bar> \<le> 1024"
    and b_y3: "\<bar>y3\<bar> \<le> 1024"
  shows "ap (6291456) (1603 / 2 ^ 39) (det_a_double x1 y1 x2 y2 x3 y3) (det_a x1 y1 x2 y2 x3 y3)"
proof -
  have v_x1: "ap 1024 0 x1 x1" using b_x1 by (rule ap_var)
  have v_y1: "ap 1024 0 y1 y1" using b_y1 by (rule ap_var)
  have v_x2: "ap 1024 0 x2 x2" using b_x2 by (rule ap_var)
  have v_y2: "ap 1024 0 y2 y2" using b_y2 by (rule ap_var)
  have v_x3: "ap 1024 0 x3 x3" using b_x3 by (rule ap_var)
  have v_y3: "ap 1024 0 y3 y3" using b_y3 by (rule ap_var)
  define f1 where "f1 = fsub y2 y3"
  define t1 where "t1 = y2 - y3"
  have n1: "ap (2048) (1025 / 2 ^ 52) f1 t1"
    unfolding f1_def t1_def by (rule ap_sub [OF v_y2 v_y3]) simp_all
  define f2 where "f2 = fmul x1 f1"
  define t2 where "t2 = x1 * t1"
  have n2: "ap (2097152) (1025 / 2 ^ 41) f2 t2"
    unfolding f2_def t2_def by (rule ap_mul [OF v_x1 n1]) simp_all
  define f3 where "f3 = fsub x2 x3"
  define t3 where "t3 = x2 - x3"
  have n3: "ap (2048) (1025 / 2 ^ 52) f3 t3"
    unfolding f3_def t3_def by (rule ap_sub [OF v_x2 v_x3]) simp_all
  define f4 where "f4 = fmul y1 f3"
  define t4 where "t4 = y1 * t3"
  have n4: "ap (2097152) (1025 / 2 ^ 41) f4 t4"
    unfolding f4_def t4_def by (rule ap_mul [OF v_y1 n3]) simp_all
  define f5 where "f5 = fsub f2 f4"
  define t5 where "t5 = t2 - t4"
  have n5: "ap (4194304) (769 / 2 ^ 39) f5 t5"
    unfolding f5_def t5_def by (rule ap_sub [OF n2 n4]) simp_all
  define f6 where "f6 = fmul x2 y3"
  define t6 where "t6 = x2 * y3"
  have n6: "ap (1048576) (1025 / 2 ^ 43) f6 t6"
    unfolding f6_def t6_def by (rule ap_mul [OF v_x2 v_y3]) simp_all
  define f7 where "f7 = fadd f5 f6"
  define t7 where "t7 = t5 + t6"
  have n7: "ap (5242880) (577 / 2 ^ 38) f7 t7"
    unfolding f7_def t7_def by (rule ap_add [OF n5 n6]) simp_all
  define f8 where "f8 = fmul x3 y2"
  define t8 where "t8 = x3 * y2"
  have n8: "ap (1048576) (1025 / 2 ^ 43) f8 t8"
    unfolding f8_def t8_def by (rule ap_mul [OF v_x3 v_y2]) simp_all
  define f9 where "f9 = fsub f7 f8"
  define t9 where "t9 = t7 - t8"
  have n9: "ap (6291456) (1603 / 2 ^ 39) f9 t9"
    unfolding f9_def t9_def by (rule ap_sub [OF n7 n8]) simp_all
  show ?thesis
    using n9 unfolding f1_def f2_def f3_def f4_def f5_def f6_def f7_def f8_def f9_def t1_def t2_def t3_def t4_def t5_def t6_def t7_def t8_def t9_def
    by (simp only: det_a_double_def det_a_def)
qed

lemma det_b_double_near:
  fixes x1 y1 x2 y2 x3 y3 :: real
  assumes b_x1: "\<bar>x1\<bar> \<le> 1024"
    and b_y1: "\<bar>y1\<bar> \<le> 1024"
    and b_x2: "\<bar>x2\<bar> \<le> 1024"
    and b_y2: "\<bar>y2\<bar> \<le> 1024"
    and b_x3: "\<bar>x3\<bar> \<le> 1024"
    and b_y3: "\<bar>y3\<bar> \<le> 1024"
  shows "ap (12884901888) (545 / 2 ^ 26) (det_b_double x1 y1 x2 y2 x3 y3) (det_b x1 y1 x2 y2 x3 y3)"
proof -
  have v_x1: "ap 1024 0 x1 x1" using b_x1 by (rule ap_var)
  have v_y1: "ap 1024 0 y1 y1" using b_y1 by (rule ap_var)
  have v_x2: "ap 1024 0 x2 x2" using b_x2 by (rule ap_var)
  have v_y2: "ap 1024 0 y2 y2" using b_y2 by (rule ap_var)
  have v_x3: "ap 1024 0 x3 x3" using b_x3 by (rule ap_var)
  have v_y3: "ap 1024 0 y3 y3" using b_y3 by (rule ap_var)
  define f1 where "f1 = fmul x1 x1"
  define t1 where "t1 = x1 * x1"
  have n1: "ap (1048576) (1025 / 2 ^ 43) f1 t1"
    unfolding f1_def t1_def by (rule ap_mul [OF v_x1 v_x1]) simp_all
  define f2 where "f2 = fmul y1 y1"
  define t2 where "t2 = y1 * y1"
  have n2: "ap (1048576) (1025 / 2 ^ 43) f2 t2"
    unfolding f2_def t2_def by (rule ap_mul [OF v_y1 v_y1]) simp_all
  define f3 where "f3 = fadd f1 f2"
  define t3 where "t3 = t1 + t2"
  have n3: "ap (2097152) (1025 / 2 ^ 41) f3 t3"
    unfolding f3_def t3_def by (rule ap_add [OF n1 n2]) simp_all
  define f4 where "f4 = fmul x2 x2"
  define t4 where "t4 = x2 * x2"
  have n4: "ap (1048576) (1025 / 2 ^ 43) f4 t4"
    unfolding f4_def t4_def by (rule ap_mul [OF v_x2 v_x2]) simp_all
  define f5 where "f5 = fmul y2 y2"
  define t5 where "t5 = y2 * y2"
  have n5: "ap (1048576) (1025 / 2 ^ 43) f5 t5"
    unfolding f5_def t5_def by (rule ap_mul [OF v_y2 v_y2]) simp_all
  define f6 where "f6 = fadd f4 f5"
  define t6 where "t6 = t4 + t5"
  have n6: "ap (2097152) (1025 / 2 ^ 41) f6 t6"
    unfolding f6_def t6_def by (rule ap_add [OF n4 n5]) simp_all
  define f7 where "f7 = fmul x3 x3"
  define t7 where "t7 = x3 * x3"
  have n7: "ap (1048576) (1025 / 2 ^ 43) f7 t7"
    unfolding f7_def t7_def by (rule ap_mul [OF v_x3 v_x3]) simp_all
  define f8 where "f8 = fmul y3 y3"
  define t8 where "t8 = y3 * y3"
  have n8: "ap (1048576) (1025 / 2 ^ 43) f8 t8"
    unfolding f8_def t8_def by (rule ap_mul [OF v_y3 v_y3]) simp_all
  define f9 where "f9 = fadd f7 f8"
  define t9 where "t9 = t7 + t8"
  have n9: "ap (2097152) (1025 / 2 ^ 41) f9 t9"
    unfolding f9_def t9_def by (rule ap_add [OF n7 n8]) simp_all
  define f10 where "f10 = fsub y3 y2"
  define t10 where "t10 = y3 - y2"
  have n10: "ap (2048) (1025 / 2 ^ 52) f10 t10"
    unfolding f10_def t10_def by (rule ap_sub [OF v_y3 v_y2]) simp_all
  define f11 where "f11 = fmul f3 f10"
  define t11 where "t11 = t3 * t10"
  have n11: "ap (4294967296) (1025 / 2 ^ 29) f11 t11"
    unfolding f11_def t11_def by (rule ap_mul [OF n3 n10]) simp_all
  define f12 where "f12 = fsub y1 y3"
  define t12 where "t12 = y1 - y3"
  have n12: "ap (2048) (1025 / 2 ^ 52) f12 t12"
    unfolding f12_def t12_def by (rule ap_sub [OF v_y1 v_y3]) simp_all
  define f13 where "f13 = fmul f6 f12"
  define t13 where "t13 = t6 * t12"
  have n13: "ap (4294967296) (1025 / 2 ^ 29) f13 t13"
    unfolding f13_def t13_def by (rule ap_mul [OF n6 n12]) simp_all
  define f14 where "f14 = fadd f11 f13"
  define t14 where "t14 = t11 + t13"
  have n14: "ap (8589934592) (641 / 2 ^ 27) f14 t14"
    unfolding f14_def t14_def by (rule ap_add [OF n11 n13]) simp_all
  define f15 where "f15 = fsub y2 y1"
  define t15 where "t15 = y2 - y1"
  have n15: "ap (2048) (1025 / 2 ^ 52) f15 t15"
    unfolding f15_def t15_def by (rule ap_sub [OF v_y2 v_y1]) simp_all
  define f16 where "f16 = fmul f9 f15"
  define t16 where "t16 = t9 * t15"
  have n16: "ap (4294967296) (1025 / 2 ^ 29) f16 t16"
    unfolding f16_def t16_def by (rule ap_mul [OF n9 n15]) simp_all
  define f17 where "f17 = fadd f14 f16"
  define t17 where "t17 = t14 + t16"
  have n17: "ap (12884901888) (545 / 2 ^ 26) f17 t17"
    unfolding f17_def t17_def by (rule ap_add [OF n14 n16]) simp_all
  show ?thesis
    using n17 unfolding f1_def f2_def f3_def f4_def f5_def f6_def f7_def f8_def f9_def f10_def f11_def f12_def f13_def f14_def f15_def f16_def f17_def t1_def t2_def t3_def t4_def t5_def t6_def t7_def t8_def t9_def t10_def t11_def t12_def t13_def t14_def t15_def t16_def t17_def
    by (simp only: det_b_double_def det_b_def)
qed

lemma det_c_double_near:
  fixes x1 y1 x2 y2 x3 y3 :: real
  assumes b_x1: "\<bar>x1\<bar> \<le> 1024"
    and b_y1: "\<bar>y1\<bar> \<le> 1024"
    and b_x2: "\<bar>x2\<bar> \<le> 1024"
    and b_y2: "\<bar>y2\<bar> \<le> 1024"
    and b_x3: "\<bar>x3\<bar> \<le> 1024"
    and b_y3: "\<bar>y3\<bar> \<le> 1024"
  shows "ap (12884901888) (545 / 2 ^ 26) (det_c_double x1 y1 x2 y2 x3 y3) (det_c x1 y1 x2 y2 x3 y3)"
proof -
  have v_x1: "ap 1024 0 x1 x1" using b_x1 by (rule ap_var)
  have v_y1: "ap 1024 0 y1 y1" using b_y1 by (rule ap_var)
  have v_x2: "ap 1024 0 x2 x2" using b_x2 by (rule ap_var)
  have v_y2: "ap 1024 0 y2 y2" using b_y2 by (rule ap_var)
  have v_x3: "ap 1024 0 x3 x3" using b_x3 by (rule ap_var)
  have v_y3: "ap 1024 0 y3 y3" using b_y3 by (rule ap_var)
  define f1 where "f1 = fmul x1 x1"
  define t1 where "t1 = x1 * x1"
  have n1: "ap (1048576) (1025 / 2 ^ 43) f1 t1"
    unfolding f1_def t1_def by (rule ap_mul [OF v_x1 v_x1]) simp_all
  define f2 where "f2 = fmul y1 y1"
  define t2 where "t2 = y1 * y1"
  have n2: "ap (1048576) (1025 / 2 ^ 43) f2 t2"
    unfolding f2_def t2_def by (rule ap_mul [OF v_y1 v_y1]) simp_all
  define f3 where "f3 = fadd f1 f2"
  define t3 where "t3 = t1 + t2"
  have n3: "ap (2097152) (1025 / 2 ^ 41) f3 t3"
    unfolding f3_def t3_def by (rule ap_add [OF n1 n2]) simp_all
  define f4 where "f4 = fmul x2 x2"
  define t4 where "t4 = x2 * x2"
  have n4: "ap (1048576) (1025 / 2 ^ 43) f4 t4"
    unfolding f4_def t4_def by (rule ap_mul [OF v_x2 v_x2]) simp_all
  define f5 where "f5 = fmul y2 y2"
  define t5 where "t5 = y2 * y2"
  have n5: "ap (1048576) (1025 / 2 ^ 43) f5 t5"
    unfolding f5_def t5_def by (rule ap_mul [OF v_y2 v_y2]) simp_all
  define f6 where "f6 = fadd f4 f5"
  define t6 where "t6 = t4 + t5"
  have n6: "ap (2097152) (1025 / 2 ^ 41) f6 t6"
    unfolding f6_def t6_def by (rule ap_add [OF n4 n5]) simp_all
  define f7 where "f7 = fmul x3 x3"
  define t7 where "t7 = x3 * x3"
  have n7: "ap (1048576) (1025 / 2 ^ 43) f7 t7"
    unfolding f7_def t7_def by (rule ap_mul [OF v_x3 v_x3]) simp_all
  define f8 where "f8 = fmul y3 y3"
  define t8 where "t8 = y3 * y3"
  have n8: "ap (1048576) (1025 / 2 ^ 43) f8 t8"
    unfolding f8_def t8_def by (rule ap_mul [OF v_y3 v_y3]) simp_all
  define f9 where "f9 = fadd f7 f8"
  define t9 where "t9 = t7 + t8"
  have n9: "ap (2097152) (1025 / 2 ^ 41) f9 t9"
    unfolding f9_def t9_def by (rule ap_add [OF n7 n8]) simp_all
  define f10 where "f10 = fsub x2 x3"
  define t10 where "t10 = x2 - x3"
  have n10: "ap (2048) (1025 / 2 ^ 52) f10 t10"
    unfolding f10_def t10_def by (rule ap_sub [OF v_x2 v_x3]) simp_all
  define f11 where "f11 = fmul f3 f10"
  define t11 where "t11 = t3 * t10"
  have n11: "ap (4294967296) (1025 / 2 ^ 29) f11 t11"
    unfolding f11_def t11_def by (rule ap_mul [OF n3 n10]) simp_all
  define f12 where "f12 = fsub x3 x1"
  define t12 where "t12 = x3 - x1"
  have n12: "ap (2048) (1025 / 2 ^ 52) f12 t12"
    unfolding f12_def t12_def by (rule ap_sub [OF v_x3 v_x1]) simp_all
  define f13 where "f13 = fmul f6 f12"
  define t13 where "t13 = t6 * t12"
  have n13: "ap (4294967296) (1025 / 2 ^ 29) f13 t13"
    unfolding f13_def t13_def by (rule ap_mul [OF n6 n12]) simp_all
  define f14 where "f14 = fadd f11 f13"
  define t14 where "t14 = t11 + t13"
  have n14: "ap (8589934592) (641 / 2 ^ 27) f14 t14"
    unfolding f14_def t14_def by (rule ap_add [OF n11 n13]) simp_all
  define f15 where "f15 = fsub x1 x2"
  define t15 where "t15 = x1 - x2"
  have n15: "ap (2048) (1025 / 2 ^ 52) f15 t15"
    unfolding f15_def t15_def by (rule ap_sub [OF v_x1 v_x2]) simp_all
  define f16 where "f16 = fmul f9 f15"
  define t16 where "t16 = t9 * t15"
  have n16: "ap (4294967296) (1025 / 2 ^ 29) f16 t16"
    unfolding f16_def t16_def by (rule ap_mul [OF n9 n15]) simp_all
  define f17 where "f17 = fadd f14 f16"
  define t17 where "t17 = t14 + t16"
  have n17: "ap (12884901888) (545 / 2 ^ 26) f17 t17"
    unfolding f17_def t17_def by (rule ap_add [OF n14 n16]) simp_all
  show ?thesis
    using n17 unfolding f1_def f2_def f3_def f4_def f5_def f6_def f7_def f8_def f9_def f10_def f11_def f12_def f13_def f14_def f15_def f16_def f17_def t1_def t2_def t3_def t4_def t5_def t6_def t7_def t8_def t9_def t10_def t11_def t12_def t13_def t14_def t15_def t16_def t17_def
    by (simp only: det_c_double_def det_c_def)
qed

lemma det_d_double_near:
  fixes x1 y1 x2 y2 x3 y3 :: real
  assumes b_x1: "\<bar>x1\<bar> \<le> 1024"
    and b_y1: "\<bar>y1\<bar> \<le> 1024"
    and b_x2: "\<bar>x2\<bar> \<le> 1024"
    and b_y2: "\<bar>y2\<bar> \<le> 1024"
    and b_x3: "\<bar>x3\<bar> \<le> 1024"
    and b_y3: "\<bar>y3\<bar> \<le> 1024"
  shows "ap (13194139533312) (1283 / 2 ^ 17) (det_d_double x1 y1 x2 y2 x3 y3) (det_d x1 y1 x2 y2 x3 y3)"
proof -
  have v_x1: "ap 1024 0 x1 x1" using b_x1 by (rule ap_var)
  have v_y1: "ap 1024 0 y1 y1" using b_y1 by (rule ap_var)
  have v_x2: "ap 1024 0 x2 x2" using b_x2 by (rule ap_var)
  have v_y2: "ap 1024 0 y2 y2" using b_y2 by (rule ap_var)
  have v_x3: "ap 1024 0 x3 x3" using b_x3 by (rule ap_var)
  have v_y3: "ap 1024 0 y3 y3" using b_y3 by (rule ap_var)
  define f1 where "f1 = fmul x1 x1"
  define t1 where "t1 = x1 * x1"
  have n1: "ap (1048576) (1025 / 2 ^ 43) f1 t1"
    unfolding f1_def t1_def by (rule ap_mul [OF v_x1 v_x1]) simp_all
  define f2 where "f2 = fmul y1 y1"
  define t2 where "t2 = y1 * y1"
  have n2: "ap (1048576) (1025 / 2 ^ 43) f2 t2"
    unfolding f2_def t2_def by (rule ap_mul [OF v_y1 v_y1]) simp_all
  define f3 where "f3 = fadd f1 f2"
  define t3 where "t3 = t1 + t2"
  have n3: "ap (2097152) (1025 / 2 ^ 41) f3 t3"
    unfolding f3_def t3_def by (rule ap_add [OF n1 n2]) simp_all
  define f4 where "f4 = fmul x2 x2"
  define t4 where "t4 = x2 * x2"
  have n4: "ap (1048576) (1025 / 2 ^ 43) f4 t4"
    unfolding f4_def t4_def by (rule ap_mul [OF v_x2 v_x2]) simp_all
  define f5 where "f5 = fmul y2 y2"
  define t5 where "t5 = y2 * y2"
  have n5: "ap (1048576) (1025 / 2 ^ 43) f5 t5"
    unfolding f5_def t5_def by (rule ap_mul [OF v_y2 v_y2]) simp_all
  define f6 where "f6 = fadd f4 f5"
  define t6 where "t6 = t4 + t5"
  have n6: "ap (2097152) (1025 / 2 ^ 41) f6 t6"
    unfolding f6_def t6_def by (rule ap_add [OF n4 n5]) simp_all
  define f7 where "f7 = fmul x3 x3"
  define t7 where "t7 = x3 * x3"
  have n7: "ap (1048576) (1025 / 2 ^ 43) f7 t7"
    unfolding f7_def t7_def by (rule ap_mul [OF v_x3 v_x3]) simp_all
  define f8 where "f8 = fmul y3 y3"
  define t8 where "t8 = y3 * y3"
  have n8: "ap (1048576) (1025 / 2 ^ 43) f8 t8"
    unfolding f8_def t8_def by (rule ap_mul [OF v_y3 v_y3]) simp_all
  define f9 where "f9 = fadd f7 f8"
  define t9 where "t9 = t7 + t8"
  have n9: "ap (2097152) (1025 / 2 ^ 41) f9 t9"
    unfolding f9_def t9_def by (rule ap_add [OF n7 n8]) simp_all
  define f10 where "f10 = fmul x3 y2"
  define t10 where "t10 = x3 * y2"
  have n10: "ap (1048576) (1025 / 2 ^ 43) f10 t10"
    unfolding f10_def t10_def by (rule ap_mul [OF v_x3 v_y2]) simp_all
  define f11 where "f11 = fmul x2 y3"
  define t11 where "t11 = x2 * y3"
  have n11: "ap (1048576) (1025 / 2 ^ 43) f11 t11"
    unfolding f11_def t11_def by (rule ap_mul [OF v_x2 v_y3]) simp_all
  define f12 where "f12 = fsub f10 f11"
  define t12 where "t12 = t10 - t11"
  have n12: "ap (2097152) (1025 / 2 ^ 41) f12 t12"
    unfolding f12_def t12_def by (rule ap_sub [OF n10 n11]) simp_all
  define f13 where "f13 = fmul f3 f12"
  define t13 where "t13 = t3 * t12"
  have n13: "ap (4398046511104) (641 / 2 ^ 18) f13 t13"
    unfolding f13_def t13_def by (rule ap_mul [OF n3 n12]) simp_all
  define f14 where "f14 = fmul x1 y3"
  define t14 where "t14 = x1 * y3"
  have n14: "ap (1048576) (1025 / 2 ^ 43) f14 t14"
    unfolding f14_def t14_def by (rule ap_mul [OF v_x1 v_y3]) simp_all
  define f15 where "f15 = fmul x3 y1"
  define t15 where "t15 = x3 * y1"
  have n15: "ap (1048576) (1025 / 2 ^ 43) f15 t15"
    unfolding f15_def t15_def by (rule ap_mul [OF v_x3 v_y1]) simp_all
  define f16 where "f16 = fsub f14 f15"
  define t16 where "t16 = t14 - t15"
  have n16: "ap (2097152) (1025 / 2 ^ 41) f16 t16"
    unfolding f16_def t16_def by (rule ap_sub [OF n14 n15]) simp_all
  define f17 where "f17 = fmul f6 f16"
  define t17 where "t17 = t6 * t16"
  have n17: "ap (4398046511104) (641 / 2 ^ 18) f17 t17"
    unfolding f17_def t17_def by (rule ap_mul [OF n6 n16]) simp_all
  define f18 where "f18 = fadd f13 f17"
  define t18 where "t18 = t13 + t17"
  have n18: "ap (8796093022208) (1539 / 2 ^ 18) f18 t18"
    unfolding f18_def t18_def by (rule ap_add [OF n13 n17]) simp_all
  define f19 where "f19 = fmul x2 y1"
  define t19 where "t19 = x2 * y1"
  have n19: "ap (1048576) (1025 / 2 ^ 43) f19 t19"
    unfolding f19_def t19_def by (rule ap_mul [OF v_x2 v_y1]) simp_all
  define f20 where "f20 = fmul x1 y2"
  define t20 where "t20 = x1 * y2"
  have n20: "ap (1048576) (1025 / 2 ^ 43) f20 t20"
    unfolding f20_def t20_def by (rule ap_mul [OF v_x1 v_y2]) simp_all
  define f21 where "f21 = fsub f19 f20"
  define t21 where "t21 = t19 - t20"
  have n21: "ap (2097152) (1025 / 2 ^ 41) f21 t21"
    unfolding f21_def t21_def by (rule ap_sub [OF n19 n20]) simp_all
  define f22 where "f22 = fmul f9 f21"
  define t22 where "t22 = t9 * t21"
  have n22: "ap (4398046511104) (641 / 2 ^ 18) f22 t22"
    unfolding f22_def t22_def by (rule ap_mul [OF n9 n21]) simp_all
  define f23 where "f23 = fadd f18 f22"
  define t23 where "t23 = t18 + t22"
  have n23: "ap (13194139533312) (1283 / 2 ^ 17) f23 t23"
    unfolding f23_def t23_def by (rule ap_add [OF n18 n22]) simp_all
  show ?thesis
    using n23 unfolding f1_def f2_def f3_def f4_def f5_def f6_def f7_def f8_def f9_def f10_def f11_def f12_def f13_def f14_def f15_def f16_def f17_def f18_def f19_def f20_def f21_def f22_def f23_def t1_def t2_def t3_def t4_def t5_def t6_def t7_def t8_def t9_def t10_def t11_def t12_def t13_def t14_def t15_def t16_def t17_def t18_def t19_def t20_def t21_def t22_def t23_def
    by (simp only: det_d_double_def det_d_def)
qed

lemma circ_test_double_agrees:
  fixes x1 y1 x2 y2 x3 y3 x y :: real
  assumes b_x1: "\<bar>x1\<bar> \<le> 1024"
    and b_y1: "\<bar>y1\<bar> \<le> 1024"
    and b_x2: "\<bar>x2\<bar> \<le> 1024"
    and b_y2: "\<bar>y2\<bar> \<le> 1024"
    and b_x3: "\<bar>x3\<bar> \<le> 1024"
    and b_y3: "\<bar>y3\<bar> \<le> 1024"
    and b_x: "\<bar>x\<bar> \<le> 1024"
    and b_y: "\<bar>y\<bar> \<le> 1024"
    and alpha: "16384 \<le> \<bar>det_a x1 y1 x2 y2 x3 y3\<bar>"
    and gap: "1 / 2 \<le> \<bar>circ_gap x1 y1 x2 y2 x3 y3 x y\<bar>"
  shows "circ_test_double x1 y1 x2 y2 x3 y3 x y = circ_test x1 y1 x2 y2 x3 y3 x y"
proof -
  have v_x: "ap 1024 0 x x" using b_x by (rule ap_var)
  have v_y: "ap 1024 0 y y" using b_y by (rule ap_var)
  define a_f where "a_f = det_a_double x1 y1 x2 y2 x3 y3"
  define a_t where "a_t = det_a x1 y1 x2 y2 x3 y3"
  have n_a: "ap (6291456) (1603 / 2 ^ 39) a_f a_t"
    unfolding a_f_def a_t_def using b_x1 b_y1 b_x2 b_y2 b_x3 b_y3 by (rule det_a_double_near)
  define b_f where "b_f = det_b_double x1 y1 x2 y2 x3 y3"
  define b_t where "b_t = det_b x1 y1 x2 y2 x3 y3"
  have n_b: "ap (12884901888) (545 / 2 ^ 26) b_f b_t"
    unfolding b_f_def b_t_def using b_x1 b_y1 b_x2 b_y2 b_x3 b_y3 by (rule det_b_double_near)
  define c_f where "c_f = det_c_double x1 y1 x2 y2 x3 y3"
  define c_t where "c_t = det_c x1 y1 x2 y2 x3 y3"
  have n_c: "ap (12884901888) (545 / 2 ^ 26) c_f c_t"
    unfolding c_f_def c_t_def using b_x1 b_y1 b_x2 b_y2 b_x3 b_y3 by (rule det_c_double_near)
  define d_f where "d_f = det_d_double x1 y1 x2 y2 x3 y3"
  define d_t where "d_t = det_d x1 y1 x2 y2 x3 y3"
  have n_d: "ap (13194139533312) (1283 / 2 ^ 17) d_f d_t"
    unfolding d_f_def d_t_def using b_x1 b_y1 b_x2 b_y2 b_x3 b_y3 by (rule det_d_double_near)
  have c_2: "ap 2 0 2 2" by (simp add: ap_def)
  have c_4: "ap 4 0 4 4" by (simp add: ap_def)
  define f1 where "f1 = fmul 2 a_f"
  define t1 where "t1 = 2 * a_t"
  have n1: "ap (12582912) (497 / 2 ^ 36) f1 t1"
    unfolding f1_def t1_def by (rule ap_mul [OF c_2 n_a]) simp_all
  define f2 where "f2 = fmul 4 a_f"
  define t2 where "t2 = 4 * a_t"
  have n2: "ap (25165824) (497 / 2 ^ 35) f2 t2"
    unfolding f2_def t2_def by (rule ap_mul [OF c_4 n_a]) simp_all
  define f3 where "f3 = fmul b_f b_f"
  define t3 where "t3 = b_t * b_t"
  have n3: "ap (166020696663385964544) (227840) f3 t3"
    unfolding f3_def t3_def by (rule ap_mul [OF n_b n_b]) simp_all
  define f4 where "f4 = fmul c_f c_f"
  define t4 where "t4 = c_t * c_t"
  have n4: "ap (166020696663385964544) (227840) f4 t4"
    unfolding f4_def t4_def by (rule ap_mul [OF n_c n_c]) simp_all
  define f5 where "f5 = fadd f3 f4"
  define t5 where "t5 = t3 + t4"
  have n5: "ap (332041393326771929088) (492800) f5 t5"
    unfolding f5_def t5_def by (rule ap_add [OF n3 n4]) simp_all
  define f6 where "f6 = fmul f2 d_f"
  define t6 where "t6 = t2 * d_t"
  have n6: "ap (332041393326771929088) (474112) f6 t6"
    unfolding f6_def t6_def by (rule ap_mul [OF n2 n_d]) simp_all
  define f7 where "f7 = fsub f5 f6"
  define t7 where "t7 = t5 - t6"
  have n7: "ap (664082786653543858176) (1040896) f7 t7"
    unfolding f7_def t7_def by (rule ap_sub [OF n5 n6]) simp_all
  define f8 where "f8 = fmul f2 a_f"
  define t8 where "t8 = t2 * a_t"
  have n8: "ap (158329674399744) (1491 / 2 ^ 13) f8 t8"
    unfolding f8_def t8_def by (rule ap_mul [OF n2 n_a]) simp_all
  have al: "16384 \<le> \<bar>a_t\<bar>" unfolding a_t_def by (rule alpha)
  have ra: "rel (1603 / 2 ^ 53) a_f a_t" by (rule rel_of_ap [OF n_a al]) simp_all
  have l2: "32768 \<le> \<bar>2 * a_t\<bar>" using al by simp
  have r2: "rel (1605 / 2 ^ 53) f1 t1" unfolding f1_def t1_def by (rule rel_mul [OF rel_exact ra l2]) simp_all
  have l2f: "32768 \<le> \<bar>t1\<bar>" unfolding t1_def by (rule l2)
  have l4a: "65536 \<le> \<bar>4 * a_t\<bar>" using al by simp
  have r4a: "rel (1605 / 2 ^ 53) (fmul 4 a_f) (4 * a_t)" by (rule rel_mul [OF rel_exact ra l4a]) simp_all
  have l4: "1073741824 \<le> \<bar>4 * a_t * a_t\<bar>" using abs_sq_lower [OF al] by simp
  have r4: "rel (1605 / 2 ^ 52) f8 t8" unfolding f8_def t8_def f2_def t2_def by (rule rel_mul [OF r4a ra l4]) simp_all
  have l4f: "1073741824 \<le> \<bar>t8\<bar>" unfolding t8_def t2_def by (rule l4)
  define f9 where "f9 = - b_f"
  define t9 where "t9 = - b_t"
  have n9: "ap (12884901888) (545 / 2 ^ 26) f9 t9"
    unfolding f9_def t9_def by (rule ap_neg [OF n_b])
  define f10 where "f10 = fdiv f9 f1"
  define t10 where "t10 = t9 / t1"
  have n10: "ap (393216) (1209 / 2 ^ 34) f10 t10"
    unfolding f10_def t10_def by (rule ap_div_rel [OF n9 r2 l2f]) simp_all
  define f11 where "f11 = - c_f"
  define t11 where "t11 = - c_t"
  have n11: "ap (12884901888) (545 / 2 ^ 26) f11 t11"
    unfolding f11_def t11_def by (rule ap_neg [OF n_c])
  define f12 where "f12 = fdiv f11 f1"
  define t12 where "t12 = t11 / t1"
  have n12: "ap (393216) (1209 / 2 ^ 34) f12 t12"
    unfolding f12_def t12_def by (rule ap_div_rel [OF n11 r2 l2f]) simp_all
  define f13 where "f13 = fdiv f7 f8"
  define t13 where "t13 = t7 / t8"
  have n13: "ap (618475290624) (1815 / 2 ^ 13) f13 t13"
    unfolding f13_def t13_def by (rule ap_div_rel [OF n7 r4 l4f]) simp_all
  define f14 where "f14 = fsub x f10"
  define t14 where "t14 = x - t10"
  have n14: "ap (394240) (605 / 2 ^ 33) f14 t14"
    unfolding f14_def t14_def by (rule ap_sub [OF v_x n10]) simp_all
  define f15 where "f15 = fsub y f12"
  define t15 where "t15 = y - t12"
  have n15: "ap (394240) (605 / 2 ^ 33) f15 t15"
    unfolding f15_def t15_def by (rule ap_sub [OF v_y n12]) simp_all
  define f16 where "f16 = fmul f14 f14"
  define t16 where "t16 = t14 * t14"
  have n16: "ap (155425177600) (1821 / 2 ^ 15) f16 t16"
    unfolding f16_def t16_def by (rule ap_mul [OF n14 n14]) simp_all
  define f17 where "f17 = fmul f15 f15"
  define t17 where "t17 = t15 * t15"
  have n17: "ap (155425177600) (1821 / 2 ^ 15) f17 t17"
    unfolding f17_def t17_def by (rule ap_mul [OF n15 n15]) simp_all
  define f18 where "f18 = fadd f16 f17"
  define t18 where "t18 = t16 + t17"
  have n18: "ap (310850355200) (911 / 2 ^ 13) f18 t18"
    unfolding f18_def t18_def by (rule ap_add [OF n16 n17]) simp_all
  note tdefs = a_t_def b_t_def c_t_def d_t_def t1_def t2_def t3_def t4_def t5_def t6_def t7_def t8_def t9_def t10_def t11_def t12_def t13_def t14_def t15_def t16_def t17_def t18_def
  note fdefs = a_f_def b_f_def c_f_def d_f_def f1_def f2_def f3_def f4_def f5_def f6_def f7_def f8_def f9_def f10_def f11_def f12_def f13_def f14_def f15_def f16_def f17_def f18_def
  have m: "1 / 2 \<le> \<bar>t18 - t13\<bar>"
    using gap by (simp only: circ_gap_def tdefs)
  have dec: "(f18 < f13) = (t18 < t13)"
    by (rule ap_decide [OF n18 n13 _ m]) simp
  have "\<bar>a_f - a_t\<bar> \<le> 1603 / 2 ^ 39" using n_a by (simp add: ap_def)
  then have "\<bar>a_f - a_t\<bar> \<le> 1" by simp
  with al to_double_guard have g1: "\<not> \<bar>a_f\<bar> < to_double (1 / 1000000)" by linarith
  from al have g2: "\<not> \<bar>a_t\<bar> < 1 / 1000000" by linarith
  show ?thesis
    unfolding circ_test_double_def circ_test_def Let_def
    using g1 g2 dec unfolding fdefs tdefs by (simp only: if_False)
qed

section \<open>The circumcircle test in double precision\<close>

lemma isPointInCircumcircle_double_circ_test:
  "isPointInCircumcircle_double h t p =
     circ_test_double (position_x (h (p1 t))) (position_y (h (p1 t)))
               (position_x (h (p2 t))) (position_y (h (p2 t)))
               (position_x (h (p3 t))) (position_y (h (p3 t)))
               (position_x (h p)) (position_y (h p))"
  by (simp only: isPointInCircumcircle_double_def circ_test_double_def Let_def
      det_a_double_def det_b_double_def det_c_double_def det_d_double_def)

lemma circumcircle_through_vertex:
  fixes a b c d u v :: real
  assumes a0: "a \<noteq> 0" and z: "a * (u * u + v * v) + b * u + c * v + d = 0"
  shows "on_circle (- b / (2 * a)) (- c / (2 * a)) ((b * b + c * c - 4 * a * d) / (4 * a * a)) u v"
proof -
  have k: "4 * a * a \<noteq> 0" using a0 by simp
  have "((u - (- b / (2 * a))) * (u - (- b / (2 * a))) + (v - (- c / (2 * a))) * (v - (- c / (2 * a)))) * (4 * a * a)
      = (2 * a * u + b) * (2 * a * u + b) + (2 * a * v + c) * (2 * a * v + c)"
    using a0 by (simp add: field_simps)
  also have "\<dots> = 4 * a * (a * (u * u + v * v) + b * u + c * v + d) + (b * b + c * c - 4 * a * d)"
    by (simp add: algebra_simps)
  also have "\<dots> = b * b + c * c - 4 * a * d" by (simp add: z)
  finally have E: "((u - (- b / (2 * a))) * (u - (- b / (2 * a))) + (v - (- c / (2 * a))) * (v - (- c / (2 * a)))) * (4 * a * a)
     = b * b + c * c - 4 * a * d" .
  show ?thesis
    unfolding on_circle_def by (rule iffD2 [OF nonzero_eq_divide_eq [OF k] E])
qed

lemma pw_circ_gap:
  assumes a0: "det_a x1 y1 x2 y2 x3 y3 \<noteq> 0"
  shows "pw x1 y1 x2 y2 x3 y3 x y = det_a x1 y1 x2 y2 x3 y3 * circ_gap x1 y1 x2 y2 x3 y3 x y"
proof -
  define a where "a = det_a x1 y1 x2 y2 x3 y3"
  define b where "b = det_b x1 y1 x2 y2 x3 y3"
  define c where "c = det_c x1 y1 x2 y2 x3 y3"
  define d where "d = det_d x1 y1 x2 y2 x3 y3"
  have a0': "a \<noteq> 0" unfolding a_def by (rule a0)
  have v1: "a * (x1 * x1 + y1 * y1) + b * x1 + c * y1 + d = 0"
    using pw_vertices(1) [of x1 y1 x2 y2 x3 y3] by (simp only: pw_def a_def b_def c_def d_def)
  have v2: "a * (x2 * x2 + y2 * y2) + b * x2 + c * y2 + d = 0"
    using pw_vertices(2) [of x1 y1 x2 y2 x3 y3] by (simp only: pw_def a_def b_def c_def d_def)
  have v3: "a * (x3 * x3 + y3 * y3) + b * x3 + c * y3 + d = 0"
    using pw_vertices(3) [of x1 y1 x2 y2 x3 y3] by (simp only: pw_def a_def b_def c_def d_def)
  have "pw x1 y1 x2 y2 x3 y3 x y =
        det_a x1 y1 x2 y2 x3 y3 *
          ((x - (- b / (2 * a))) * (x - (- b / (2 * a))) + (y - (- c / (2 * a))) * (y - (- c / (2 * a))) -
           (b * b + c * c - 4 * a * d) / (4 * a * a))"
    by (rule circle_unique [OF circumcircle_through_vertex [OF a0' v1]
          circumcircle_through_vertex [OF a0' v2] circumcircle_through_vertex [OF a0' v3]])
  then show ?thesis by (simp only: circ_gap_def a_def b_def c_def d_def)
qed

lemma circ_gap_unique:
  assumes a0: "det_a x1 y1 x2 y2 x3 y3 \<noteq> 0"
    and A: "on_circle cx cy r2 x1 y1" and B: "on_circle cx cy r2 x2 y2" and C: "on_circle cx cy r2 x3 y3"
  shows "(x - cx) * (x - cx) + (y - cy) * (y - cy) - r2 = circ_gap x1 y1 x2 y2 x3 y3 x y"
proof -
  have "det_a x1 y1 x2 y2 x3 y3 * ((x - cx) * (x - cx) + (y - cy) * (y - cy) - r2) =
        det_a x1 y1 x2 y2 x3 y3 * circ_gap x1 y1 x2 y2 x3 y3 x y"
    using circle_unique [OF A B C, of x y] pw_circ_gap [OF a0, of x y] by (rule trans [OF sym])
  then show ?thesis by (rule iffD1 [OF mult_left_cancel [OF a0]])
qed

lemma on_circumcircle:
  assumes a0: "det_a x1 y1 x2 y2 x3 y3 \<noteq> 0"
  shows "\<exists>cx cy r2. on_circle cx cy r2 x1 y1 \<and> on_circle cx cy r2 x2 y2 \<and> on_circle cx cy r2 x3 y3"
proof -
  define a where "a = det_a x1 y1 x2 y2 x3 y3"
  define b where "b = det_b x1 y1 x2 y2 x3 y3"
  define c where "c = det_c x1 y1 x2 y2 x3 y3"
  define d where "d = det_d x1 y1 x2 y2 x3 y3"
  have a0': "a \<noteq> 0" unfolding a_def by (rule a0)
  have v1: "a * (x1 * x1 + y1 * y1) + b * x1 + c * y1 + d = 0"
    using pw_vertices(1) [of x1 y1 x2 y2 x3 y3] by (simp only: pw_def a_def b_def c_def d_def)
  have v2: "a * (x2 * x2 + y2 * y2) + b * x2 + c * y2 + d = 0"
    using pw_vertices(2) [of x1 y1 x2 y2 x3 y3] by (simp only: pw_def a_def b_def c_def d_def)
  have v3: "a * (x3 * x3 + y3 * y3) + b * x3 + c * y3 + d = 0"
    using pw_vertices(3) [of x1 y1 x2 y2 x3 y3] by (simp only: pw_def a_def b_def c_def d_def)
  show ?thesis
    using circumcircle_through_vertex [OF a0' v1] circumcircle_through_vertex [OF a0' v2]
      circumcircle_through_vertex [OF a0' v3] by blast
qed

lemma clear_iff_gap:
  assumes "triangle_det h t \<noteq> 0"
  shows "clear_of_circumcircle m h t p \<longleftrightarrow>
     m \<le> \<bar>circ_gap (position_x (h (p1 t))) (position_y (h (p1 t)))
               (position_x (h (p2 t))) (position_y (h (p2 t)))
               (position_x (h (p3 t))) (position_y (h (p3 t)))
               (position_x (h p)) (position_y (h p))\<bar>"
proof -
  have a0: "det_a (position_x (h (p1 t))) (position_y (h (p1 t)))
               (position_x (h (p2 t))) (position_y (h (p2 t)))
               (position_x (h (p3 t))) (position_y (h (p3 t))) \<noteq> 0"
    using assms unfolding triangle_det_det_a .
  show ?thesis
    unfolding clear_of_circumcircle_def
    using circ_gap_unique [OF a0] on_circumcircle [OF a0] by metis
qed

lemma isPointInCircumcircle_double_spec:
  assumes r1: "\<bar>position_x (h (p1 t))\<bar> \<le> 1024" "\<bar>position_y (h (p1 t))\<bar> \<le> 1024"
    and r2: "\<bar>position_x (h (p2 t))\<bar> \<le> 1024" "\<bar>position_y (h (p2 t))\<bar> \<le> 1024"
    and r3: "\<bar>position_x (h (p3 t))\<bar> \<le> 1024" "\<bar>position_y (h (p3 t))\<bar> \<le> 1024"
    and r: "\<bar>position_x (h p)\<bar> \<le> 1024" "\<bar>position_y (h p)\<bar> \<le> 1024"
    and a: "16384 \<le> \<bar>triangle_det h t\<bar>"
    and c: "clear_of_circumcircle (1 / 2) h t p"
  shows "isPointInCircumcircle_double h t p \<longleftrightarrow> strictly_inside_circumcircle h t p"
proof -
  have a0: "triangle_det h t \<noteq> 0" using a by auto
  have a1: "1 / 1000000 \<le> \<bar>triangle_det h t\<bar>" using a by simp
  have g: "1 / 2 \<le> \<bar>circ_gap (position_x (h (p1 t))) (position_y (h (p1 t)))
               (position_x (h (p2 t))) (position_y (h (p2 t)))
               (position_x (h (p3 t))) (position_y (h (p3 t)))
               (position_x (h p)) (position_y (h p))\<bar>"
    using c by (simp only: clear_iff_gap [OF a0])
  have "isPointInCircumcircle_double h t p = isPointInCircumcircle h t p"
    unfolding isPointInCircumcircle_double_circ_test isPointInCircumcircle_circ_test
    by (rule circ_test_double_agrees [OF r1 r2 r3 r a [unfolded triangle_det_det_a] g])
  then show ?thesis by (simp only: isPointInCircumcircle_spec [OF a1])
qed

lemma to_double_guard_lower: "9 / 10000000 \<le> to_double (1 / 1000000)"
proof -
  have "\<bar>to_double (1 / 1000000) - 1 / 1000000\<bar> \<le> \<bar>1 / 1000000\<bar> / 2 ^ 53 + 1 / 2 ^ 1075"
    by (rule to_double_error)
  also have "\<dots> \<le> 1 / 10000000" by simp
  finally show ?thesis by linarith
qed

lemma degenerate_not_in_circumcircle_double:
  assumes r1: "\<bar>position_x (h (p1 t))\<bar> \<le> 1024" "\<bar>position_y (h (p1 t))\<bar> \<le> 1024"
    and r2: "\<bar>position_x (h (p2 t))\<bar> \<le> 1024" "\<bar>position_y (h (p2 t))\<bar> \<le> 1024"
    and r3: "\<bar>position_x (h (p3 t))\<bar> \<le> 1024" "\<bar>position_y (h (p3 t))\<bar> \<le> 1024"
    and a: "\<bar>triangle_det h t\<bar> \<le> 8 / 10000000"
  shows "\<not> isPointInCircumcircle_double h t p"
proof -
  have "\<bar>det_a_double (position_x (h (p1 t))) (position_y (h (p1 t)))
               (position_x (h (p2 t))) (position_y (h (p2 t)))
               (position_x (h (p3 t))) (position_y (h (p3 t))) - triangle_det h t\<bar> \<le> 1603 / 2 ^ 39"
    using det_a_double_near [OF r1 r2 r3] by (simp only: ap_def triangle_det_det_a)
  moreover have "(1603 :: real) / 2 ^ 39 \<le> 1 / 100000000" by simp
  ultimately have "\<bar>det_a_double (position_x (h (p1 t))) (position_y (h (p1 t)))
               (position_x (h (p2 t))) (position_y (h (p2 t)))
               (position_x (h (p3 t))) (position_y (h (p3 t)))\<bar> < to_double (1 / 1000000)"
    using a to_double_guard_lower by linarith
  then show ?thesis
    by (simp only: isPointInCircumcircle_double_circ_test circ_test_double_def if_True simp_thms)
qed

section \<open>The triangle list in double precision\<close>

lemma isDelaunay_loop_double_iff:
  "isDelaunay_loop_double h pts tri i j k ls \<longleftrightarrow>
     (\<forall>l \<in> set ls. l \<noteq> i \<and> l \<noteq> j \<and> l \<noteq> k \<longrightarrow> \<not> isPointInCircumcircle_double h tri (pts ! l))"
  by (induction ls) auto

lemma set_candidate_double:
  "set (candidate_double h pts i j k) =
     (if \<forall>l < length pts. l \<noteq> i \<and> l \<noteq> j \<and> l \<noteq> k \<longrightarrow>
            \<not> isPointInCircumcircle_double h (Triangle (pts ! i) (pts ! j) (pts ! k)) (pts ! l)
      then {Triangle (pts ! i) (pts ! j) (pts ! k)} else {})"
  by (auto simp: candidate_double_def Let_def isDelaunay_loop_double_iff)

lemma set_findDelaunayTriangles_double:
  "set (findDelaunayTriangles_double h pts) =
     {Triangle (pts ! i) (pts ! j) (pts ! k) | i j k.
        i < j \<and> j < k \<and> k < length pts \<and>
        (\<forall>l < length pts. l \<noteq> i \<and> l \<noteq> j \<and> l \<noteq> k \<longrightarrow>
            \<not> isPointInCircumcircle_double h (Triangle (pts ! i) (pts ! j) (pts ! k)) (pts ! l))}"
  (is "?L = ?R")
proof (cases "length pts < 3")
  case True
  then have "?R = {}" by auto
  with True show ?thesis by (simp add: findDelaunayTriangles_double_def)
next
  case False
  show ?thesis
  proof (rule set_eqI)
    fix t
    have "t \<in> ?L \<longleftrightarrow> (\<exists>i \<in> {0..<length pts - 2}. \<exists>j \<in> {Suc i..<length pts - 1}.
            \<exists>k \<in> {Suc j..<length pts}. t \<in> set (candidate_double h pts i j k))"
      using False by (simp add: findDelaunayTriangles_double_def)
    also have "\<dots> \<longleftrightarrow> (\<exists>i j k. i < j \<and> j < k \<and> k < length pts \<and> t \<in> set (candidate_double h pts i j k))"
    proof
      assume "\<exists>i \<in> {0..<length pts - 2}. \<exists>j \<in> {Suc i..<length pts - 1}.
            \<exists>k \<in> {Suc j..<length pts}. t \<in> set (candidate_double h pts i j k)"
      then obtain i j k where "i < length pts - 2" "Suc i \<le> j" "j < length pts - 1" "Suc j \<le> k"
        "k < length pts" "t \<in> set (candidate_double h pts i j k)"
        by auto
      then have "i < j \<and> j < k \<and> k < length pts \<and> t \<in> set (candidate_double h pts i j k)" by simp
      then show "\<exists>i j k. i < j \<and> j < k \<and> k < length pts \<and> t \<in> set (candidate_double h pts i j k)"
        by blast
    next
      assume "\<exists>i j k. i < j \<and> j < k \<and> k < length pts \<and> t \<in> set (candidate_double h pts i j k)"
      then obtain i j k where ijk: "i < j" "j < k" "k < length pts"
        and t: "t \<in> set (candidate_double h pts i j k)"
        by blast
      have "i \<in> {0..<length pts - 2}" "j \<in> {Suc i..<length pts - 1}" "k \<in> {Suc j..<length pts}"
        using ijk by auto
      with t show "\<exists>i \<in> {0..<length pts - 2}. \<exists>j \<in> {Suc i..<length pts - 1}.
            \<exists>k \<in> {Suc j..<length pts}. t \<in> set (candidate_double h pts i j k)"
        by blast
    qed
    also have "\<dots> \<longleftrightarrow> t \<in> ?R"
      by (auto simp: set_candidate_double split: if_splits)
    finally show "t \<in> ?L \<longleftrightarrow> t \<in> ?R" .
  qed
qed

lemma triangles_calculateAndDraw_double:
  "triangles (calculateAndDraw_double s) =
     (if 3 \<le> length (points s) then findDelaunayTriangles_double (heap s) (points s) else triangles s)"
  by (simp add: calculateAndDraw_double_def Let_def clearTriangleMeshes_def foldl_drawTriangle_frame)

lemma double_test_on_list:
  assumes rg: "in_range h pts" and ijk: "i < j" "j < k" "k < length pts" and l: "l < length pts"
    and a: "16384 \<le> \<bar>triangle_det h (Triangle (pts ! i) (pts ! j) (pts ! k))\<bar>"
    and c: "clear_of_circumcircle (1 / 2) h (Triangle (pts ! i) (pts ! j) (pts ! k)) (pts ! l)"
  shows "isPointInCircumcircle_double h (Triangle (pts ! i) (pts ! j) (pts ! k)) (pts ! l) \<longleftrightarrow>
         strictly_inside_circumcircle h (Triangle (pts ! i) (pts ! j) (pts ! k)) (pts ! l)"
proof -
  have m: "pts ! i \<in> set pts" "pts ! j \<in> set pts" "pts ! k \<in> set pts" "pts ! l \<in> set pts"
    using ijk l by simp_all
  have b: "\<bar>position_x (h q)\<bar> \<le> 1024" "\<bar>position_y (h q)\<bar> \<le> 1024" if "q \<in> set pts" for q
    using rg that by (simp_all add: in_range_def)
  show ?thesis
    by (rule isPointInCircumcircle_double_spec)
       (simp_all only: triangle.sel b [OF m(1)] b [OF m(2)] b [OF m(3)] b [OF m(4)] a c)
qed

section \<open>Delaunay validity (C1)\<close>

lemma nth_triple_inj:
  assumes d: "distinct pts" and a: "i < length pts" "j < length pts" "k < length pts"
    and b: "i' < length pts" "j' < length pts" "k' < length pts"
    and e: "Triangle (pts ! i') (pts ! j') (pts ! k') = Triangle (pts ! i) (pts ! j) (pts ! k)"
  shows "i' = i \<and> j' = j \<and> k' = k"
  using e nth_eq_iff_index_eq [OF d] a b by simp

lemma less_4_cases:
  fixes l :: nat
  assumes "l < 4"
  shows "l = 0 \<or> l = Suc 0 \<or> l = 2 \<or> l = 3"
  using assms by arith

lemma example_state_simps:
  "heap example_state = store_of [(0, 0), (400, 0), (0, 400), (100, 100)]"
  "points example_state = [0, Suc 0, 2, 3]"
  by (simp_all add: example_state_def state_of_4)

lemma example_in_range: "in_range (heap example_state) (points example_state)"
  by (simp add: in_range_def example_state_simps store_of_4)

lemma example_gap:
  "circ_gap 0 0 400 0 0 400 100 100 = - 60000"
  "circ_gap 0 0 400 0 100 100 0 400 = 240000"
  "circ_gap 0 0 0 400 100 100 400 0 = 240000"
  "circ_gap 400 0 0 400 100 100 0 0 = 120000"
  by (simp_all add: circ_gap_def det_a_def det_b_def det_c_def det_d_def)


lemma example_well_conditioned:
  assumes "i < j" "j < k" "k < length (points example_state)"
  shows "well_conditioned (heap example_state) (points example_state) i j k"
proof -
  let ?h = "store_of [(0, 0), (400, 0), (0, 400), (100, 100)]"
  have "(i, j, k) \<in> {(0, Suc 0, 2), (0, Suc 0, 3), (0, 2, 3), (Suc 0, 2, 3)}"
    using assms by (intro triples_below_4) (simp_all add: example_state_simps)
  then consider "i = 0 \<and> j = Suc 0 \<and> k = 2" | "i = 0 \<and> j = Suc 0 \<and> k = 3"
    | "i = 0 \<and> j = 2 \<and> k = 3" | "i = Suc 0 \<and> j = 2 \<and> k = 3"
    by auto
  then have "well_conditioned ?h [0, Suc 0, 2, 3] i j k"
  proof cases
    case 1
    have d: "triangle_det ?h (Triangle 0 (Suc 0) 2) = 160000"
      by (simp add: triangle_det_def store_of_4)
    have c: "clear_of_circumcircle (1 / 2) ?h (Triangle 0 (Suc 0) 2) 3"
      by (subst clear_iff_gap) (simp_all add: d store_of_4 example_gap)
    show ?thesis
      unfolding well_conditioned_def
    proof (intro conjI allI impI)
      show "16384 \<le> \<bar>triangle_det ?h (Triangle ([0, Suc 0, 2, 3] ! i) ([0, Suc 0, 2, 3] ! j) ([0, Suc 0, 2, 3] ! k))\<bar>"
        using 1 d by simp
    next
      fix l :: nat
      assume "l < length [0, Suc 0, 2, 3 :: nat]" and "l \<noteq> i \<and> l \<noteq> j \<and> l \<noteq> k"
      then have "l = 3" using 1 less_4_cases [of l] by auto
      then show "clear_of_circumcircle (1 / 2) ?h
           (Triangle ([0, Suc 0, 2, 3] ! i) ([0, Suc 0, 2, 3] ! j) ([0, Suc 0, 2, 3] ! k)) ([0, Suc 0, 2, 3] ! l)"
        using 1 c by simp
    qed
  next
    case 2
    have d: "triangle_det ?h (Triangle 0 (Suc 0) 3) = 40000"
      by (simp add: triangle_det_def store_of_4)
    have c: "clear_of_circumcircle (1 / 2) ?h (Triangle 0 (Suc 0) 3) 2"
      by (subst clear_iff_gap) (simp_all add: d store_of_4 example_gap)
    show ?thesis
      unfolding well_conditioned_def
    proof (intro conjI allI impI)
      show "16384 \<le> \<bar>triangle_det ?h (Triangle ([0, Suc 0, 2, 3] ! i) ([0, Suc 0, 2, 3] ! j) ([0, Suc 0, 2, 3] ! k))\<bar>"
        using 2 d by simp
    next
      fix l :: nat
      assume "l < length [0, Suc 0, 2, 3 :: nat]" and "l \<noteq> i \<and> l \<noteq> j \<and> l \<noteq> k"
      then have "l = 2" using 2 less_4_cases [of l] by auto
      then show "clear_of_circumcircle (1 / 2) ?h
           (Triangle ([0, Suc 0, 2, 3] ! i) ([0, Suc 0, 2, 3] ! j) ([0, Suc 0, 2, 3] ! k)) ([0, Suc 0, 2, 3] ! l)"
        using 2 c by simp
    qed
  next
    case 3
    have d: "triangle_det ?h (Triangle 0 2 3) = - 40000"
      by (simp add: triangle_det_def store_of_4)
    have c: "clear_of_circumcircle (1 / 2) ?h (Triangle 0 2 3) (Suc 0)"
      by (subst clear_iff_gap) (simp_all add: d store_of_4 example_gap)
    show ?thesis
      unfolding well_conditioned_def
    proof (intro conjI allI impI)
      show "16384 \<le> \<bar>triangle_det ?h (Triangle ([0, Suc 0, 2, 3] ! i) ([0, Suc 0, 2, 3] ! j) ([0, Suc 0, 2, 3] ! k))\<bar>"
        using 3 d by simp
    next
      fix l :: nat
      assume "l < length [0, Suc 0, 2, 3 :: nat]" and "l \<noteq> i \<and> l \<noteq> j \<and> l \<noteq> k"
      then have "l = Suc 0" using 3 less_4_cases [of l] by auto
      then show "clear_of_circumcircle (1 / 2) ?h
           (Triangle ([0, Suc 0, 2, 3] ! i) ([0, Suc 0, 2, 3] ! j) ([0, Suc 0, 2, 3] ! k)) ([0, Suc 0, 2, 3] ! l)"
        using 3 c by simp
    qed
  next
    case 4
    have d: "triangle_det ?h (Triangle (Suc 0) 2 3) = 80000"
      by (simp add: triangle_det_def store_of_4)
    have c: "clear_of_circumcircle (1 / 2) ?h (Triangle (Suc 0) 2 3) 0"
      by (subst clear_iff_gap) (simp_all add: d store_of_4 example_gap)
    show ?thesis
      unfolding well_conditioned_def
    proof (intro conjI allI impI)
      show "16384 \<le> \<bar>triangle_det ?h (Triangle ([0, Suc 0, 2, 3] ! i) ([0, Suc 0, 2, 3] ! j) ([0, Suc 0, 2, 3] ! k))\<bar>"
        using 4 d by simp
    next
      fix l :: nat
      assume "l < length [0, Suc 0, 2, 3 :: nat]" and "l \<noteq> i \<and> l \<noteq> j \<and> l \<noteq> k"
      then have "l = 0" using 4 less_4_cases [of l] by auto
      then show "clear_of_circumcircle (1 / 2) ?h
           (Triangle ([0, Suc 0, 2, 3] ! i) ([0, Suc 0, 2, 3] ! j) ([0, Suc 0, 2, 3] ! k)) ([0, Suc 0, 2, 3] ! l)"
        using 4 c by simp
    qed
  qed
  then show ?thesis by (simp only: example_state_simps)
qed

text \<open>
  Claim C1, as amended. The claim is settled on the double-precision reading. For
  every state with at least three distinct points whose coordinates do not exceed
  \<open>1024\<close> in absolute value, \<^verbatim>\<open>calculateAndDraw\<close> installs the list of
  \<^verbatim>\<open>findDelaunayTriangles\<close>; that list holds only triangles of index triples
  \<open>i < j < k\<close>; and for every index triple \<open>i < j < k\<close> that is well conditioned
  (its determinant \<open>a\<close> is at least \<open>16384\<close> in absolute value, and the squared
  distance of every other point to the circumcentre differs from the squared
  circumradius by at least \<open>1 / 2\<close>) the triangle is in the list exactly when no
  other point of the list is strictly inside its circumcircle. When every index
  triple is well conditioned, the list holds exactly the triangles with no other
  point strictly inside the circumcircle. Nothing is said about a triple that is
  not well conditioned: there the rounding of the computed squared radius and
  squared distance can decide the comparison.
\<close>

theorem delaunay_well_conditioned:
  assumes len: "3 \<le> length (points s)"
    and dist: "distinct (points s)"
    and rg: "in_range (heap s) (points s)"
  shows "triangles (calculateAndDraw_double s) = findDelaunayTriangles_double (heap s) (points s) \<and>
         set (findDelaunayTriangles_double (heap s) (points s)) \<subseteq>
           {Triangle (points s ! i) (points s ! j) (points s ! k) | i j k.
              i < j \<and> j < k \<and> k < length (points s)} \<and>
         (\<forall>i j k. i < j \<and> j < k \<and> k < length (points s) \<and> well_conditioned (heap s) (points s) i j k \<longrightarrow>
            (Triangle (points s ! i) (points s ! j) (points s ! k)
               \<in> set (findDelaunayTriangles_double (heap s) (points s)) \<longleftrightarrow>
             (\<forall>l < length (points s). l \<noteq> i \<and> l \<noteq> j \<and> l \<noteq> k \<longrightarrow>
                \<not> strictly_inside_circumcircle (heap s)
                    (Triangle (points s ! i) (points s ! j) (points s ! k)) (points s ! l)))) \<and>
         ((\<forall>i j k. i < j \<and> j < k \<and> k < length (points s) \<longrightarrow> well_conditioned (heap s) (points s) i j k) \<longrightarrow>
          set (findDelaunayTriangles_double (heap s) (points s)) =
            {Triangle (points s ! i) (points s ! j) (points s ! k) | i j k.
               i < j \<and> j < k \<and> k < length (points s) \<and>
               (\<forall>l < length (points s). l \<noteq> i \<and> l \<noteq> j \<and> l \<noteq> k \<longrightarrow>
                  \<not> strictly_inside_circumcircle (heap s)
                      (Triangle (points s ! i) (points s ! j) (points s ! k)) (points s ! l))})"
proof -
  let ?h = "heap s" and ?pts = "points s"
  let ?T = "\<lambda>i j k. Triangle (?pts ! i) (?pts ! j) (?pts ! k)"
  let ?D = "\<lambda>i j k. \<forall>l < length ?pts. l \<noteq> i \<and> l \<noteq> j \<and> l \<noteq> k \<longrightarrow>
                \<not> isPointInCircumcircle_double ?h (?T i j k) (?pts ! l)"
  let ?S = "\<lambda>i j k. \<forall>l < length ?pts. l \<noteq> i \<and> l \<noteq> j \<and> l \<noteq> k \<longrightarrow>
                \<not> strictly_inside_circumcircle ?h (?T i j k) (?pts ! l)"
  have set: "set (findDelaunayTriangles_double ?h ?pts) =
      {?T i j k | i j k. i < j \<and> j < k \<and> k < length ?pts \<and> ?D i j k}"
    by (rule set_findDelaunayTriangles_double)
  have agree: "?D i j k \<longleftrightarrow> ?S i j k"
    if "i < j" "j < k" "k < length ?pts" "well_conditioned ?h ?pts i j k" for i j k
  proof -
    have "isPointInCircumcircle_double ?h (?T i j k) (?pts ! l) \<longleftrightarrow>
          strictly_inside_circumcircle ?h (?T i j k) (?pts ! l)"
      if "l < length ?pts" "l \<noteq> i \<and> l \<noteq> j \<and> l \<noteq> k" for l
      using \<open>well_conditioned ?h ?pts i j k\<close> that
      by (intro double_test_on_list [OF rg \<open>i < j\<close> \<open>j < k\<close> \<open>k < length ?pts\<close>])
         (simp_all add: well_conditioned_def)
    then show ?thesis by blast
  qed
  have c1: "triangles (calculateAndDraw_double s) = findDelaunayTriangles_double ?h ?pts"
    using len by (simp add: triangles_calculateAndDraw_double)
  have c2: "set (findDelaunayTriangles_double ?h ?pts) \<subseteq>
           {?T i j k | i j k. i < j \<and> j < k \<and> k < length ?pts}"
    unfolding set by blast
  have c3: "?T i j k \<in> set (findDelaunayTriangles_double ?h ?pts) \<longleftrightarrow> ?S i j k"
    if ijk: "i < j" "j < k" "k < length ?pts" and w: "well_conditioned ?h ?pts i j k" for i j k
  proof
    assume "?T i j k \<in> set (findDelaunayTriangles_double ?h ?pts)"
    then obtain i' j' k' where b: "i' < j'" "j' < k'" "k' < length ?pts"
      and e: "?T i' j' k' = ?T i j k" and D: "?D i' j' k'"
      unfolding set by (auto simp del: triangle.inject)
    have "i' = i \<and> j' = j \<and> k' = k"
      using ijk b by (intro nth_triple_inj [OF dist _ _ _ _ _ _ e]) simp_all
    with D have "?D i j k" by simp
    then show "?S i j k" by (simp only: agree [OF ijk w])
  next
    assume "?S i j k"
    then have "?D i j k" by (simp only: agree [OF ijk w])
    with ijk show "?T i j k \<in> set (findDelaunayTriangles_double ?h ?pts)"
      unfolding set by blast
  qed
  have c4: "set (findDelaunayTriangles_double ?h ?pts) =
      {?T i j k | i j k. i < j \<and> j < k \<and> k < length ?pts \<and> ?S i j k}"
    if "\<forall>i j k. i < j \<and> j < k \<and> k < length ?pts \<longrightarrow> well_conditioned ?h ?pts i j k"
  proof -
    have "?D i j k \<longleftrightarrow> ?S i j k" if "i < j" "j < k" "k < length ?pts" for i j k
      using that \<open>\<forall>i j k. i < j \<and> j < k \<and> k < length ?pts \<longrightarrow> well_conditioned ?h ?pts i j k\<close>
      by (intro agree) blast+
    then show ?thesis unfolding set by blast
  qed
  from c1 c2 c3 c4 show ?thesis by blast
qed


lemma example_inside:
  "strictly_inside_circumcircle (store_of [(0, 0), (400, 0), (0, 400), (100, 100)]) (Triangle 0 (Suc 0) 2) 3"
  "\<not> strictly_inside_circumcircle (store_of [(0, 0), (400, 0), (0, 400), (100, 100)]) (Triangle 0 (Suc 0) 3) 2"
  "\<not> strictly_inside_circumcircle (store_of [(0, 0), (400, 0), (0, 400), (100, 100)]) (Triangle 0 2 3) (Suc 0)"
  "\<not> strictly_inside_circumcircle (store_of [(0, 0), (400, 0), (0, 400), (100, 100)]) (Triangle (Suc 0) 2 3) 0"
  by (subst strictly_inside_iff_pw;
      simp add: triangle_det_def pw_def det_a_def det_b_def det_c_def det_d_def store_of_4)+

lemma example_nth:
  "length (points example_state) = 4"
  "points example_state ! 0 = 0" "points example_state ! Suc 0 = Suc 0"
  "points example_state ! 2 = 2" "points example_state ! 3 = 3"
  by (simp_all add: example_state_simps)

text \<open>
  An instance: the points \<open>(0,0)\<close>, \<open>(400,0)\<close>, \<open>(0,400)\<close>, \<open>(100,100)\<close>. Every
  index triple is well conditioned, the last point lies inside the circumcircle of
  the first three, and the list in double precision holds the three other
  triangles.
\<close>

theorem delaunay_well_conditioned_witness:
  "3 \<le> length (points example_state) \<and> distinct (points example_state) \<and>
   in_range (heap example_state) (points example_state) \<and>
   well_conditioned (heap example_state) (points example_state) 0 1 2 \<and>
   well_conditioned (heap example_state) (points example_state) 0 1 3 \<and>
   well_conditioned (heap example_state) (points example_state) 0 2 3 \<and>
   well_conditioned (heap example_state) (points example_state) 1 2 3 \<and>
   triangles (calculateAndDraw_double example_state) =
     findDelaunayTriangles_double (heap example_state) (points example_state) \<and>
   set (findDelaunayTriangles_double (heap example_state) (points example_state)) =
     {Triangle 0 1 3, Triangle 0 2 3, Triangle 1 2 3}"
proof -
  let ?H = "heap example_state" and ?P = "points example_state"
  let ?F = "findDelaunayTriangles_double ?H ?P"
  have len: "3 \<le> length ?P" and dist: "distinct ?P"
    by (simp_all add: example_state_simps)
  note t = delaunay_well_conditioned [OF len dist example_in_range]
  note t1 = t [THEN conjunct1]
  note t2 = t [THEN conjunct2, THEN conjunct1]
  note t3 = t [THEN conjunct2, THEN conjunct2, THEN conjunct1]
  have sub: "set ?F \<subseteq> {Triangle 0 (Suc 0) 2, Triangle 0 (Suc 0) 3, Triangle 0 2 3, Triangle (Suc 0) 2 3}"
  proof
    fix x assume "x \<in> set ?F"
    with t2 have "x \<in> {Triangle (?P ! i) (?P ! j) (?P ! k) | i j k. i < j \<and> j < k \<and> k < length ?P}"
      by (rule subsetD)
    then obtain i j k where x: "x = Triangle (?P ! i) (?P ! j) (?P ! k)"
      and ijk: "i < j" "j < k" "k < length ?P"
      by blast
    have "(i, j, k) \<in> {(0, Suc 0, 2), (0, Suc 0, 3), (0, 2, 3), (Suc 0, 2, 3)}"
      using ijk by (intro triples_below_4) (simp_all add: example_nth)
    with x show "x \<in> {Triangle 0 (Suc 0) 2, Triangle 0 (Suc 0) 3, Triangle 0 2 3, Triangle (Suc 0) 2 3}"
      by (auto simp: example_nth)
  qed
  have pa: "(0 :: nat) < Suc 0 \<and> (Suc 0 :: nat) < 2 \<and> 2 < length ?P \<and> well_conditioned ?H ?P 0 (Suc 0) 2"
    using example_well_conditioned [of "0" "Suc 0" "2"] by (simp add: example_nth)
  have qa: "Triangle (?P ! 0) (?P ! Suc 0) (?P ! 2) \<in> set ?F \<longleftrightarrow>
      (\<forall>l < length ?P. l \<noteq> 0 \<and> l \<noteq> Suc 0 \<and> l \<noteq> 2 \<longrightarrow> \<not> strictly_inside_circumcircle ?H (Triangle (?P ! 0) (?P ! Suc 0) (?P ! 2)) (?P ! l))"
    by (rule t3 [rule_format, OF pa])
  have "\<not> (\<forall>l < length ?P. l \<noteq> 0 \<and> l \<noteq> Suc 0 \<and> l \<noteq> 2 \<longrightarrow> \<not> strictly_inside_circumcircle ?H (Triangle (?P ! 0) (?P ! Suc 0) (?P ! 2)) (?P ! l))"
  proof
    assume "\<forall>l < length ?P. l \<noteq> 0 \<and> l \<noteq> Suc 0 \<and> l \<noteq> 2 \<longrightarrow> \<not> strictly_inside_circumcircle ?H (Triangle (?P ! 0) (?P ! Suc 0) (?P ! 2)) (?P ! l)"
    moreover have "(3 :: nat) < length ?P \<and> (3 :: nat) \<noteq> 0 \<and> (3 :: nat) \<noteq> Suc 0 \<and> (3 :: nat) \<noteq> 2"
      by (simp add: example_nth)
    ultimately have "\<not> strictly_inside_circumcircle ?H (Triangle (?P ! 0) (?P ! Suc 0) (?P ! 2)) (?P ! 3)"
      by blast
    then show False using example_inside(1) by (simp add: example_nth example_state_simps(1))
  qed
  then have ma: "Triangle (?P ! 0) (?P ! Suc 0) (?P ! 2) \<notin> set ?F" using qa by blast
  have pb: "(0 :: nat) < Suc 0 \<and> (Suc 0 :: nat) < 3 \<and> 3 < length ?P \<and> well_conditioned ?H ?P 0 (Suc 0) 3"
    using example_well_conditioned [of "0" "Suc 0" "3"] by (simp add: example_nth)
  have qb: "Triangle (?P ! 0) (?P ! Suc 0) (?P ! 3) \<in> set ?F \<longleftrightarrow>
      (\<forall>l < length ?P. l \<noteq> 0 \<and> l \<noteq> Suc 0 \<and> l \<noteq> 3 \<longrightarrow> \<not> strictly_inside_circumcircle ?H (Triangle (?P ! 0) (?P ! Suc 0) (?P ! 3)) (?P ! l))"
    by (rule t3 [rule_format, OF pb])
  have "\<forall>l < length ?P. l \<noteq> 0 \<and> l \<noteq> Suc 0 \<and> l \<noteq> 3 \<longrightarrow> \<not> strictly_inside_circumcircle ?H (Triangle (?P ! 0) (?P ! Suc 0) (?P ! 3)) (?P ! l)"
  proof (intro allI impI)
    fix l :: nat
    assume "l < length ?P" and "l \<noteq> 0 \<and> l \<noteq> Suc 0 \<and> l \<noteq> 3"
    then have "l = 2" using less_4_cases [of l] by (auto simp: example_nth)
    then show "\<not> strictly_inside_circumcircle ?H (Triangle (?P ! 0) (?P ! Suc 0) (?P ! 3)) (?P ! l)"
      using example_inside(2) by (simp add: example_nth example_state_simps(1))
  qed
  then have mb: "Triangle (?P ! 0) (?P ! Suc 0) (?P ! 3) \<in> set ?F" using qb by blast
  have pc: "(0 :: nat) < 2 \<and> (2 :: nat) < 3 \<and> 3 < length ?P \<and> well_conditioned ?H ?P 0 (2) 3"
    using example_well_conditioned [of "0" "2" "3"] by (simp add: example_nth)
  have qc: "Triangle (?P ! 0) (?P ! 2) (?P ! 3) \<in> set ?F \<longleftrightarrow>
      (\<forall>l < length ?P. l \<noteq> 0 \<and> l \<noteq> 2 \<and> l \<noteq> 3 \<longrightarrow> \<not> strictly_inside_circumcircle ?H (Triangle (?P ! 0) (?P ! 2) (?P ! 3)) (?P ! l))"
    by (rule t3 [rule_format, OF pc])
  have "\<forall>l < length ?P. l \<noteq> 0 \<and> l \<noteq> 2 \<and> l \<noteq> 3 \<longrightarrow> \<not> strictly_inside_circumcircle ?H (Triangle (?P ! 0) (?P ! 2) (?P ! 3)) (?P ! l)"
  proof (intro allI impI)
    fix l :: nat
    assume "l < length ?P" and "l \<noteq> 0 \<and> l \<noteq> 2 \<and> l \<noteq> 3"
    then have "l = Suc 0" using less_4_cases [of l] by (auto simp: example_nth)
    then show "\<not> strictly_inside_circumcircle ?H (Triangle (?P ! 0) (?P ! 2) (?P ! 3)) (?P ! l)"
      using example_inside(3) by (simp add: example_nth example_state_simps(1))
  qed
  then have mc: "Triangle (?P ! 0) (?P ! 2) (?P ! 3) \<in> set ?F" using qc by blast
  have pd: "(Suc 0 :: nat) < 2 \<and> (2 :: nat) < 3 \<and> 3 < length ?P \<and> well_conditioned ?H ?P (Suc 0) 2 3"
    using example_well_conditioned [of "Suc 0" "2" "3"] by (simp add: example_nth)
  have qd: "Triangle (?P ! Suc 0) (?P ! 2) (?P ! 3) \<in> set ?F \<longleftrightarrow>
      (\<forall>l < length ?P. l \<noteq> Suc 0 \<and> l \<noteq> 2 \<and> l \<noteq> 3 \<longrightarrow> \<not> strictly_inside_circumcircle ?H (Triangle (?P ! Suc 0) (?P ! 2) (?P ! 3)) (?P ! l))"
    by (rule t3 [rule_format, OF pd])
  have "\<forall>l < length ?P. l \<noteq> Suc 0 \<and> l \<noteq> 2 \<and> l \<noteq> 3 \<longrightarrow> \<not> strictly_inside_circumcircle ?H (Triangle (?P ! Suc 0) (?P ! 2) (?P ! 3)) (?P ! l)"
  proof (intro allI impI)
    fix l :: nat
    assume "l < length ?P" and "l \<noteq> Suc 0 \<and> l \<noteq> 2 \<and> l \<noteq> 3"
    then have "l = 0" using less_4_cases [of l] by (auto simp: example_nth)
    then show "\<not> strictly_inside_circumcircle ?H (Triangle (?P ! Suc 0) (?P ! 2) (?P ! 3)) (?P ! l)"
      using example_inside(4) by (simp add: example_nth example_state_simps(1))
  qed
  then have md: "Triangle (?P ! Suc 0) (?P ! 2) (?P ! 3) \<in> set ?F" using qd by blast
  have "set ?F = {Triangle 0 (Suc 0) 3, Triangle 0 2 3, Triangle (Suc 0) 2 3}"
    using sub ma mb mc md by (auto simp: example_nth)
  with t1 len dist example_in_range pa pb pc pd show ?thesis by simp
qed

text \<open>
  Claim C1 as it is written asks only that no three points be collinear. Here no
  three of the four points are collinear, the determinant of the first three is
  \<open>1 / 2^24\<close>, below the threshold \<^verbatim>\<open>1e-6\<close> of the degenerate case, their
  triangle is returned (in double precision and in exact arithmetic alike), and
  the fourth point is strictly inside its circumcircle.
\<close>

theorem delaunay_near_collinear_counterexample:
  "3 \<le> length [0, 1, 2, 3 :: ref] \<and>
   \<not> collinear near_heap (Triangle 0 1 2) \<and> \<not> collinear near_heap (Triangle 0 1 3) \<and>
   \<not> collinear near_heap (Triangle 0 2 3) \<and> \<not> collinear near_heap (Triangle 1 2 3) \<and>
   Triangle 0 1 2 \<in> set (findDelaunayTriangles_double near_heap [0, 1, 2, 3]) \<and>
   Triangle 0 1 2 \<in> set (findDelaunayTriangles near_heap [0, 1, 2, 3]) \<and>
   strictly_inside_circumcircle near_heap (Triangle 0 1 2) 3"
proof -
  have d: "triangle_det near_heap (Triangle 0 (Suc 0) 2) = 1 / 16777216"
    by (simp add: triangle_det_def near_heap_simps)
  have "\<not> isPointInCircumcircle near_heap (Triangle 0 (Suc 0) 2) 3"
    by (rule degenerate_not_in_circumcircle) (simp add: d)
  then have m: "Triangle 0 (Suc 0) 2 \<in> set (findDelaunayTriangles near_heap [0, Suc 0, 2, 3])"
    by (simp add: findDelaunayTriangles_def upt4 candidate_def)
  have "\<not> isPointInCircumcircle_double near_heap (Triangle 0 (Suc 0) 2) 3"
    by (rule degenerate_not_in_circumcircle_double) (simp_all add: d near_heap_simps)
  then have m': "Triangle 0 (Suc 0) 2 \<in> set (findDelaunayTriangles_double near_heap [0, Suc 0, 2, 3])"
    by (simp add: findDelaunayTriangles_double_def upt4 candidate_double_def)
  have i: "strictly_inside_circumcircle near_heap (Triangle 0 (Suc 0) 2) 3"
    by (subst strictly_inside_iff_pw)
       (simp_all add: d pw_def det_a_def det_b_def det_c_def det_d_def near_heap_simps)
  show ?thesis
    using m m' i by (simp add: collinear_def near_heap_simps)
qed

section \<open>Eviction (C3)\<close>

lemma addPoint_fst: "fst (addPoint s w h x y) = next_ref s"
  by (simp add: addPoint_def Let_def removePoint_def split: list.splits)

lemma addPoint_next_ref: "next_ref (snd (addPoint s w h x y)) = Suc (next_ref s)"
  by (simp add: addPoint_def Let_def removePoint_def split: list.splits)

lemma addPoint_points:
  "points (snd (addPoint s w h x y)) =
     (if MAX_POINTS \<le> length (points s) then tl (points s) else points s) @ [next_ref s]"
  by (simp add: addPoint_def Let_def removePoint_def MAX_POINTS_def split: list.splits)

lemma addPoint_position_new:
  "position_of (heap (snd (addPoint s w h x y))) (next_ref s) = three_coordinates (w, h, x, y)"
  by (simp add: addPoint_def Let_def removePoint_def position_of_def three_coordinates_def split: list.splits)

lemma addPoint_position_old:
  "r \<noteq> next_ref s \<Longrightarrow> position_of (heap (snd (addPoint s w h x y))) r = position_of (heap s) r"
  by (simp add: addPoint_def Let_def removePoint_def position_of_def split: list.splits)

lemma last_refs_upt: "last_refs n = [n - MAX_POINTS..<n]"
  by (simp add: last_refs_def)

lemma last_refs_Suc:
  "(if MAX_POINTS \<le> length (last_refs n) then tl (last_refs n) else last_refs n) @ [n] = last_refs (Suc n)"
proof (cases "MAX_POINTS \<le> n")
  case True
  then have "Suc n - MAX_POINTS = Suc (n - MAX_POINTS)" by (simp add: MAX_POINTS_def)
  with True show ?thesis by (simp add: last_refs_upt MAX_POINTS_def)
next
  case False
  then show ?thesis by (simp add: last_refs_upt)
qed

lemma addPoints_inv:
  "points s = last_refs (next_ref s) \<Longrightarrow>
   points (addPoints s calls) = last_refs (next_ref s + length calls) \<and>
   next_ref (addPoints s calls) = next_ref s + length calls"
proof (induction calls arbitrary: s)
  case Nil
  then show ?case by simp
next
  case (Cons c calls)
  obtain w h x y where c: "c = (w, h, x, y)" by (cases c) auto
  have "points (snd (addPoint s w h x y)) = last_refs (next_ref (snd (addPoint s w h x y)))"
    using Cons.prems last_refs_Suc [of "next_ref s"] by (simp only: addPoint_points addPoint_next_ref)
  from Cons.IH [OF this] show ?case by (simp add: c addPoint_next_ref)
qed

lemma addPoints_position_old:
  "r < next_ref s \<Longrightarrow> position_of (heap (addPoints s calls)) r = position_of (heap s) r"
proof (induction calls arbitrary: s)
  case Nil
  then show ?case by simp
next
  case (Cons c calls)
  obtain w h x y where c: "c = (w, h, x, y)" by (cases c) auto
  have "position_of (heap (addPoints (snd (addPoint s w h x y)) calls)) r
        = position_of (heap (snd (addPoint s w h x y))) r"
    using Cons.prems by (intro Cons.IH) (simp add: addPoint_next_ref)
  then show ?case using Cons.prems by (simp add: c addPoint_position_old)
qed

lemma addPoints_positions:
  "map (position_of (heap (addPoints s calls))) [next_ref s..<next_ref s + length calls]
     = map three_coordinates calls"
proof (induction calls arbitrary: s)
  case Nil
  then show ?case by simp
next
  case (Cons c calls)
  obtain w h x y where c: "c = (w, h, x, y)" by (cases c) auto
  let ?s1 = "snd (addPoint s w h x y)"
  have "[next_ref s..<next_ref s + length (c # calls)] = next_ref s # [next_ref ?s1..<next_ref ?s1 + length calls]"
    by (simp add: addPoint_next_ref upt_rec)
  moreover have "position_of (heap (addPoints ?s1 calls)) (next_ref s) = three_coordinates c"
    by (simp add: addPoints_position_old addPoint_next_ref addPoint_position_new c)
  ultimately show ?case using Cons.IH [of ?s1] by (simp add: c)
qed

text \<open>
  Claim C3. One \<^verbatim>\<open>addPoint\<close> call appends the new point, after dropping the
  oldest point when the list already holds \<open>MAX_POINTS = 30\<close> points. After any
  sequence of calls from the empty manager the list holds at most 30 points: the
  last 30 made, in the order they were made, each at the position its call gave
  it. After 31 calls these are the points number 1 to 30, and the first point made
  (number 0) is not among them.
\<close>

theorem addPoint_fifo:
  "points (snd (addPoint s innerWidth innerHeight x y)) =
     (if MAX_POINTS \<le> length (points s) then tl (points s) else points s) @
     [fst (addPoint s innerWidth innerHeight x y)] \<and>
   points (addPoints initial_state calls) = drop (length calls - MAX_POINTS) [0..<length calls] \<and>
   length (points (addPoints initial_state calls)) = min (length calls) MAX_POINTS \<and>
   map (position_of (heap (addPoints initial_state calls))) [0..<length calls] =
     map three_coordinates calls \<and>
   MAX_POINTS = 30 \<and>
   (length calls = 31 \<longrightarrow>
      points (addPoints initial_state calls) = [1..<31] \<and>
      0 \<notin> set (points (addPoints initial_state calls)))"
proof -
  have i: "points initial_state = last_refs (next_ref initial_state)"
    by (simp add: initial_state_def last_refs_def)
  have n: "next_ref initial_state = 0" by (simp add: initial_state_def)
  have p: "points (addPoints initial_state calls) = last_refs (length calls)"
    using addPoints_inv [OF i, of calls] by (simp add: n)
  have q: "map (position_of (heap (addPoints initial_state calls))) [0..<length calls] =
     map three_coordinates calls"
    using addPoints_positions [of initial_state calls] by (simp add: n)
  have r: "last_refs 31 = [1..<31]" by (simp add: last_refs_upt MAX_POINTS_def)
  show ?thesis
    by (simp add: addPoint_points addPoint_fst p q r MAX_POINTS_def) (auto simp: last_refs_def MAX_POINTS_def)
qed

text \<open>An instance: 31 calls in a window of 800 by 600.\<close>

theorem addPoint_fifo_witness:
  "length (map (\<lambda>i. (800 :: real, 600 :: real, real i, 2 * real i)) [0..<31]) = 31 \<and>
   points (addPoints initial_state (map (\<lambda>i. (800 :: real, 600 :: real, real i, 2 * real i)) [0..<31])) = [1..<31] \<and>
   0 \<notin> set (points (addPoints initial_state (map (\<lambda>i. (800 :: real, 600 :: real, real i, 2 * real i)) [0..<31])))"
proof -
  let ?calls = "map (\<lambda>i. (800 :: real, 600 :: real, real i, 2 * real i)) [0..<31]"
  have len: "length ?calls = 31" by simp
  have "length ?calls = 31 \<longrightarrow>
          points (addPoints initial_state ?calls) = [1..<31] \<and>
          0 \<notin> set (points (addPoints initial_state ?calls))"
    using addPoint_fifo [of initial_state 0 0 0 0 ?calls] by blast
  with len show ?thesis by blast
qed

section \<open>The store after \<^verbatim>\<open>updatePoints\<close>\<close>

lemma for_each_Nil [simp]: "for_each g h [] = h"
  by (simp add: for_each_def)

lemma for_each_Cons [simp]: "for_each g h (p # ps) = for_each g (h(p := g (h p))) ps"
  by (simp add: for_each_def)

lemma for_each_notin:
  "r \<notin> set ps \<Longrightarrow> for_each g h ps r = h r"
  by (induction ps arbitrary: h) auto

lemma for_each_distinct:
  "distinct ps \<Longrightarrow> p \<in> set ps \<Longrightarrow> for_each g h ps p = g (h p)"
proof (induction ps arbitrary: h)
  case Nil
  then show ?case by simp
next
  case (Cons q ps)
  show ?case
  proof (cases "p = q")
    case True
    then have "p \<notin> set ps" using Cons.prems by simp
    then show ?thesis using True by (simp add: for_each_notin)
  next
    case False
    then show ?thesis using Cons by simp
  qed
qed

lemma for_each_all:
  assumes "\<And>m. Q (g m)" "p \<in> set ps"
  shows "Q (for_each g h ps p)"
  using assms(2)
proof (induction ps arbitrary: h)
  case Nil
  then show ?case by simp
next
  case (Cons q ps)
  show ?case
  proof (cases "p \<in> set ps")
    case True
    then show ?thesis using Cons.IH by simp
  next
    case False
    then have "p = q" using Cons.prems by simp
    then show ?thesis using False assms(1) by (simp add: for_each_notin)
  qed
qed

lemma brownian_loop_notin:
  "r \<notin> set ps \<Longrightarrow> applyBrownianMotion_loop rnd n h ps r = h r"
  by (induction ps arbitrary: h n) auto

lemma brownian_loop_nth:
  "distinct ps \<Longrightarrow> i < length ps \<Longrightarrow>
   applyBrownianMotion_loop rnd n h ps (ps ! i) = brownian_kick rnd (n + 2 * i) (h (ps ! i))"
proof (induction ps arbitrary: h n i)
  case Nil
  then show ?case by simp
next
  case (Cons q ps)
  show ?case
  proof (cases i)
    case 0
    then show ?thesis using Cons.prems by (simp add: brownian_loop_notin brownian_kick_def)
  next
    case (Suc k)
    then have "ps ! k \<noteq> q" using Cons.prems by auto
    then show ?thesis using Cons.prems Suc Cons.IH [of k] by simp
  qed
qed

lemma fst_foldl_updatePoints_step:
  "fst (foldl (updatePoints_step sw sh) (h, c) ps) =
     for_each (\<lambda>point. update_point point sw sh) h ps"
  by (induction ps arbitrary: h c) (simp_all add: updatePoints_step_def Let_def)

lemma heap_updateTrianglePositions [simp]:
  "heap (updateTrianglePositions s) = heap s" "points (updateTrianglePositions s) = points s"
  "triangles (updateTrianglePositions s) = triangles s" "next_ref (updateTrianglePositions s) = next_ref s"
  by (simp_all add: updateTrianglePositions_def)

lemma heap_updatePoints:
  "heap (updatePoints s rnd sw sh) =
     for_each (\<lambda>point. update_point point sw sh)
       (for_each (\<lambda>point. constrainToOriginalPosition point MAX_DISTANCE RETURN_FORCE)
          (applyBrownianMotion_loop rnd 0 (heap s) (points s)) (points s))
       (points s)"
proof -
  obtain h c where hc: "foldl (updatePoints_step sw sh)
        (heap (applyPositionConstraints (applyBrownianMotion s rnd)), False)
        (points (applyPositionConstraints (applyBrownianMotion s rnd))) = (h, c)"
    by (cases "foldl (updatePoints_step sw sh)
        (heap (applyPositionConstraints (applyBrownianMotion s rnd)), False)
        (points (applyPositionConstraints (applyBrownianMotion s rnd)))") auto
  have "h = fst (foldl (updatePoints_step sw sh)
        (heap (applyPositionConstraints (applyBrownianMotion s rnd)), False)
        (points (applyPositionConstraints (applyBrownianMotion s rnd))))"
    by (simp add: hc)
  then have "h = for_each (\<lambda>point. update_point point sw sh)
       (for_each (\<lambda>point. constrainToOriginalPosition point MAX_DISTANCE RETURN_FORCE)
          (applyBrownianMotion_loop rnd 0 (heap s) (points s)) (points s))
       (points s)"
    by (simp add: fst_foldl_updatePoints_step applyPositionConstraints_def applyBrownianMotion_def)
  then show ?thesis
    by (simp add: updatePoints_def Let_def hc)
qed

lemma points_updatePoints [simp]: "points (updatePoints s rnd sw sh) = points s"
  by (simp add: updatePoints_def Let_def applyPositionConstraints_def applyBrownianMotion_def
      split: prod.splits)

lemma heap_updatePoints_nth:
  assumes "distinct (points s)" "i < length (points s)"
  shows "heap (updatePoints s rnd sw sh) (points s ! i) = tick_point rnd i sw sh (heap s (points s ! i))"
  using assms
  by (simp add: heap_updatePoints for_each_distinct brownian_loop_nth tick_point_def)

lemma heap_updatePoints_notin:
  "r \<notin> set (points s) \<Longrightarrow> heap (updatePoints s rnd sw sh) r = heap s r"
  by (simp add: heap_updatePoints for_each_notin brownian_loop_notin)

lemma position_update_userData [simp]:
  "position_x (update_userData f m) = position_x m" "position_y (update_userData f m) = position_y m"
  by (simp_all add: update_userData_def)

lemma userData_update_userData [simp]:
  "userData (update_userData f m) = map_option f (userData m)"
  by (simp add: update_userData_def)

lemma moving_state_simps [simp]:
  "heap (moving_state pos vel orig) 0 =
     \<lparr>position_x = fst pos, position_y = snd pos,
      userData = Some \<lparr>vx = fst vel, vy = snd vel, origX = fst orig, origY = snd orig\<rparr>\<rparr>"
  "points (moving_state pos vel orig) = [0]"
  "next_ref (moving_state pos vel orig) = 1"
  "triangles (moving_state pos vel orig) = []"
  "meshes (moving_state pos vel orig) = []"
  by (simp_all add: moving_state_def initial_state_def)

lemma live_inv_moving_state [simp]: "live_inv (moving_state pos vel orig)"
  by (simp add: live_inv_def)

lemma tick_point_quiet:
  assumes u: "userData m = Some u"
    and noise: "rnd (2 * i) = 1 / 2" "rnd (2 * i + 1) = 1 / 2"
    and near: "sqrt ((position_x m - origX u) * (position_x m - origX u) +
                     (position_y m - origY u) * (position_y m - origY u)) \<le> MAX_DISTANCE"
  shows "tick_point rnd i sw sh m = update_point m sw sh"
proof -
  have "brownian_kick rnd (2 * i) m = m"
    using u noise by (simp add: brownian_kick_def update_userData_def)
  moreover have "constrainToOriginalPosition m MAX_DISTANCE RETURN_FORCE = m"
    using u near by (simp add: constrainToOriginalPosition_def Let_def)
  ultimately show ?thesis by (simp add: tick_point_def)
qed

section \<open>Frame conditions and the invariant of the point list\<close>

lemma foldl_drawTriangle_scene_frame:
  "next_ref (foldl drawTriangle s ts) = next_ref s \<and>
   lastAddedPoint (foldl drawTriangle s ts) = lastAddedPoint s \<and>
   triangulation (foldl drawTriangle s ts) = triangulation s"
  by (induction ts arbitrary: s) (simp_all add: drawTriangle_def Let_def)

lemma calculateAndDraw_frame [simp]:
  "heap (calculateAndDraw s) = heap s" "points (calculateAndDraw s) = points s"
  "next_ref (calculateAndDraw s) = next_ref s"
  by (simp_all add: calculateAndDraw_def Let_def clearTriangleMeshes_def foldl_drawTriangle_frame
      foldl_drawTriangle_scene_frame)

lemma heap_applyRepulsion:
  "heap (applyRepulsion s newPoint) = foldl (repulse_step newPoint) (heap s) (points s)"
proof -
  have "(\<lambda>h point. if point = newPoint then h
          else h(point := applyRepulsionForce (h point) (h newPoint) REPULSION_STRENGTH REPULSION_RADIUS))
        = repulse_step newPoint"
    by (intro ext) (simp add: repulse_step_def)
  then show ?thesis by (simp add: applyRepulsion_def Let_def)
qed

lemma points_applyRepulsion [simp]: "points (applyRepulsion s newPoint) = points s"
  by (simp add: applyRepulsion_def Let_def)

lemma repulse_fold_new: "foldl (repulse_step newPoint) h ps newPoint = h newPoint"
  by (induction ps arbitrary: h) (simp_all add: repulse_step_def)

lemma repulse_fold_notin: "r \<notin> set ps \<Longrightarrow> foldl (repulse_step newPoint) h ps r = h r"
  by (induction ps arbitrary: h) (auto simp: repulse_step_def)

lemma repulse_fold_distinct:
  "distinct ps \<Longrightarrow> p \<in> set ps \<Longrightarrow> p \<noteq> newPoint \<Longrightarrow>
   foldl (repulse_step newPoint) h ps p =
     applyRepulsionForce (h p) (h newPoint) REPULSION_STRENGTH REPULSION_RADIUS"
proof (induction ps arbitrary: h)
  case Nil
  then show ?case by simp
next
  case (Cons q ps)
  show ?case
  proof (cases "p = q")
    case True
    then have "p \<notin> set ps" using Cons.prems by simp
    then have "foldl (repulse_step newPoint) h (q # ps) p = repulse_step newPoint h q p"
      by (simp add: repulse_fold_notin)
    also have "\<dots> = applyRepulsionForce (h p) (h newPoint) REPULSION_STRENGTH REPULSION_RADIUS"
      using True Cons.prems(3) by (simp add: repulse_step_def)
    finally show ?thesis .
  next
    case False
    then have "foldl (repulse_step newPoint) (repulse_step newPoint h q) ps p =
       applyRepulsionForce (repulse_step newPoint h q p) (repulse_step newPoint h q newPoint)
         REPULSION_STRENGTH REPULSION_RADIUS"
      using Cons by simp
    moreover have "repulse_step newPoint h q p = h p" "repulse_step newPoint h q newPoint = h newPoint"
      using False by (simp_all add: repulse_step_def)
    ultimately show ?thesis by simp
  qed
qed

lemma store_of_nth:
  "r < length ps \<Longrightarrow> store_of ps r =
     \<lparr>position_x = fst (ps ! r), position_y = snd (ps ! r),
      userData = Some \<lparr>vx = 0, vy = 0, origX = fst (ps ! r), origY = snd (ps ! r)\<rparr>\<rparr>"
  by (simp add: store_of_def)

lemma state_of_simps [simp]:
  "heap (state_of ps) = store_of ps" "points (state_of ps) = [0..<length ps]"
  "next_ref (state_of ps) = length ps" "triangulation (state_of ps) = True"
  by (simp_all add: state_of_def initial_state_def)

lemma live_inv_state_of: "live_inv (state_of ps)"
  by (simp add: live_inv_def store_of_nth)

lemma live_inv_initial: "live_inv initial_state"
  by (simp add: live_inv_def initial_state_def)

lemma live_inv_addPoint:
  assumes "live_inv s"
  shows "live_inv (snd (addPoint s w h x y))"
proof (cases "MAX_POINTS \<le> length (points s)")
  case False
  then show ?thesis
    using assms by (auto simp: live_inv_def addPoint_def Let_def)
next
  case True
  then obtain oldest rest where p: "points s = oldest # rest"
    by (cases "points s") (auto simp: MAX_POINTS_def)
  show ?thesis
    using assms True p by (auto simp: live_inv_def addPoint_def Let_def removePoint_def)
qed

lemma live_inv_alt:
  "live_inv s \<longleftrightarrow> distinct (points s) \<and> (\<forall>p \<in> set (points s). p < next_ref s \<and> has_userData (heap s p))"
  by (simp add: live_inv_def has_userData_def)

lemma has_userData_applyRepulsionForce:
  "has_userData m \<Longrightarrow> has_userData (applyRepulsionForce m other st rad)"
  by (simp add: applyRepulsionForce_def Let_def has_userData_def)

lemma has_userData_constrainToOriginalPosition:
  "has_userData m \<Longrightarrow> has_userData (constrainToOriginalPosition m md rf)"
  by (auto simp: constrainToOriginalPosition_def Let_def has_userData_def)

lemma has_userData_update_point:
  "has_userData m \<Longrightarrow> has_userData (update_point m sw sh)"
  by (auto simp: update_point_def applyFriction_def constrainToScreen_def integrate_def Let_def
      has_userData_def)

lemma has_userData_brownian:
  "has_userData m \<Longrightarrow> has_userData (update_userData f m)"
  by (simp add: has_userData_def)

lemma for_each_preserves:
  assumes "\<And>m. Q m \<Longrightarrow> Q (g m)" "Q (h p)"
  shows "Q (for_each g h ps p)"
  using assms(2)
proof (induction ps arbitrary: h)
  case Nil
  then show ?case by simp
next
  case (Cons q ps)
  have "Q ((h(q := g (h q))) p)"
    using Cons.prems assms(1) by (cases "p = q") simp_all
  then show ?case using Cons.IH by simp
qed

lemma brownian_loop_preserves:
  "has_userData (h p) \<Longrightarrow> has_userData (applyBrownianMotion_loop rnd n h ps p)"
proof (induction ps arbitrary: h n)
  case Nil
  then show ?case by simp
next
  case (Cons q ps)
  let ?h = "h(q := update_userData
            (\<lambda>u. u\<lparr>vx := vx u + (rnd n - 1 / 2) * BROWNIAN_STRENGTH,
                   vy := vy u + (rnd (n + 1) - 1 / 2) * BROWNIAN_STRENGTH\<rparr>) (h q))"
  have "has_userData (?h p)"
    using Cons.prems by (cases "p = q") (simp_all add: has_userData_brownian)
  then have "has_userData (applyBrownianMotion_loop rnd (n + 2) ?h ps p)"
    by (rule Cons.IH)
  then show ?case by simp
qed

lemma repulse_fold_preserves:
  "has_userData (h p) \<Longrightarrow> has_userData (foldl (repulse_step newPoint) h ps p)"
proof (induction ps arbitrary: h)
  case Nil
  then show ?case by simp
next
  case (Cons q ps)
  have "has_userData (repulse_step newPoint h q p)"
    using Cons.prems by (cases "p = q") (auto simp: repulse_step_def has_userData_applyRepulsionForce)
  then show ?case using Cons.IH by simp
qed

lemma next_ref_applyRepulsion [simp]: "next_ref (applyRepulsion s newPoint) = next_ref s"
  by (simp add: applyRepulsion_def Let_def)

lemma live_inv_applyRepulsion:
  "live_inv s \<Longrightarrow> live_inv (applyRepulsion s newPoint)"
  by (simp add: live_inv_alt heap_applyRepulsion repulse_fold_preserves)

lemma next_ref_updatePoints [simp]: "next_ref (updatePoints s rnd sw sh) = next_ref s"
  by (simp add: updatePoints_def Let_def applyPositionConstraints_def applyBrownianMotion_def
      split: prod.splits)

lemma live_inv_updatePoints:
  assumes "live_inv s"
  shows "live_inv (updatePoints s rnd sw sh)"
proof -
  have "has_userData (heap (updatePoints s rnd sw sh) p)" if "has_userData (heap s p)" for p
    unfolding heap_updatePoints
    by (intro for_each_preserves [where Q = has_userData] brownian_loop_preserves that
        has_userData_update_point has_userData_constrainToOriginalPosition)
  then show ?thesis using assms by (simp add: live_inv_alt)
qed

lemma live_inv_calculateAndDraw: "live_inv s \<Longrightarrow> live_inv (calculateAndDraw s)"
  by (simp add: live_inv_def)

lemma reachable_live_inv: "reachable s \<Longrightarrow> live_inv s"
  by (induction rule: reachable.induct)
     (simp_all add: live_inv_initial live_inv_addPoint live_inv_applyRepulsion live_inv_updatePoints
        live_inv_calculateAndDraw)

section \<open>Boundary reflection (C4)\<close>

text \<open>
  Claim C4, as amended. Take a point of the list at \<open>x = halfWidth + 5\<close> with
  \<open>halfWidth \<ge> 0\<close> and \<open>y\<close> within the screen, with velocity \<open>vx = 3\<close>, \<open>vy = 0\<close>,
  not farther than \<open>MAX_DISTANCE\<close> from its origin, and an \<^verbatim>\<open>updatePoints\<close> call
  whose random numbers for this point are \<open>1/2\<close> (no Brownian kick). After the
  call \<open>x = halfWidth\<close>, \<open>y\<close> is unchanged, \<open>vy = 0\<close> and
  \<open>vx = -3 * BOUNCE_FACTOR * FRICTION = -1.35\<close>: the friction of the same call
  applies after the bounce.
\<close>

theorem boundary_reflection:
  assumes "live_inv s" "i < length (points s)" "p = points s ! i"
    and "userData (heap s p) = Some u" "vx u = 3" "vy u = 0"
    and "position_x (heap s p) = screenWidth / 2 + 5" "0 \<le> screenWidth"
    and "- (screenHeight / 2) \<le> position_y (heap s p)" "position_y (heap s p) \<le> screenHeight / 2"
    and "rnd (2 * i) = 1 / 2" "rnd (2 * i + 1) = 1 / 2"
    and "sqrt ((position_x (heap s p) - origX u) * (position_x (heap s p) - origX u) +
               (position_y (heap s p) - origY u) * (position_y (heap s p) - origY u)) \<le> MAX_DISTANCE"
  shows "position_x (heap (updatePoints s rnd screenWidth screenHeight) p) = screenWidth / 2 \<and>
         position_y (heap (updatePoints s rnd screenWidth screenHeight) p) = position_y (heap s p) \<and>
         userData (heap (updatePoints s rnd screenWidth screenHeight) p) =
           Some (u\<lparr>vx := - 3 * BOUNCE_FACTOR * FRICTION, vy := 0\<rparr>) \<and>
         - 3 * BOUNCE_FACTOR * FRICTION = - (27 / 20)"
proof -
  have d: "distinct (points s)" using assms(1) by (simp add: live_inv_def)
  have "heap (updatePoints s rnd screenWidth screenHeight) p =
        tick_point rnd i screenWidth screenHeight (heap s p)"
    using heap_updatePoints_nth [OF d assms(2)] assms(3) by simp
  also have "\<dots> = update_point (heap s p) screenWidth screenHeight"
    using assms(4,11,12,13) by (rule tick_point_quiet)
  finally have e: "heap (updatePoints s rnd screenWidth screenHeight) p =
      update_point (heap s p) screenWidth screenHeight" .
  show ?thesis
    unfolding e using assms(4-10)
    by (simp add: update_point_def integrate_def constrainToScreen_def applyFriction_def Let_def
        BOUNCE_FACTOR_def FRICTION_def)
qed

text \<open>An instance: a screen of 800 by 600 and a point at \<open>(405, 0)\<close>, which is its origin.\<close>

theorem boundary_reflection_witness:
  "position_x (heap (updatePoints (moving_state (405, 0) (3, 0) (405, 0)) quiet 800 600) 0) = 400 \<and>
   position_y (heap (updatePoints (moving_state (405, 0) (3, 0) (405, 0)) quiet 800 600) 0) = 0 \<and>
   userData (heap (updatePoints (moving_state (405, 0) (3, 0) (405, 0)) quiet 800 600) 0) =
     Some \<lparr>vx = - (27 / 20), vy = 0, origX = 405, origY = 0\<rparr>"
  using boundary_reflection [of "moving_state (405, 0) (3, 0) (405, 0)" 0 0
      "\<lparr>vx = 3, vy = 0, origX = 405, origY = 0\<rparr>" 800 600 quiet]
  by (simp add: MAX_DISTANCE_def BOUNCE_FACTOR_def FRICTION_def quiet_def)

lemma sqrt_10000: "sqrt 10000 = 100"
  by (rule real_sqrt_unique) simp_all

text \<open>
  Claim C4 as it is written gives \<open>vx = -3 * BOUNCE_FACTOR = -1.5\<close> for any such
  point. On the instance above the velocity is \<open>-1.35\<close>. With the random source
  answering 0 both velocity components differ; with the origin 100 away the
  point ends inside the screen; with \<open>y\<close> above the screen \<open>y\<close> moves.
\<close>

theorem boundary_reflection_counterexample:
  "userData (heap (updatePoints (moving_state (405, 0) (3, 0) (405, 0)) quiet 800 600) 0) =
     Some \<lparr>vx = - (27 / 20), vy = 0, origX = 405, origY = 0\<rparr> \<and>
   - (27 / 20) \<noteq> - 3 * BOUNCE_FACTOR \<and>
   userData (heap (updatePoints (moving_state (405, 0) (3, 0) (405, 0)) loud 800 600) 0) =
     Some \<lparr>vx = - (261 / 200), vy = - (9 / 100), origX = 405, origY = 0\<rparr> \<and>
   position_x (heap (updatePoints (moving_state (405, 0) (3, 0) (305, 0)) quiet 800 600) 0) = 797 / 2 \<and>
   position_y (heap (updatePoints (moving_state (405, 301) (3, 0) (405, 301)) quiet 800 600) 0) = 300"
  using heap_updatePoints_nth [of "moving_state (405, 0) (3, 0) (405, 0)" 0 quiet 800 600]
    heap_updatePoints_nth [of "moving_state (405, 0) (3, 0) (405, 0)" 0 loud 800 600]
    heap_updatePoints_nth [of "moving_state (405, 0) (3, 0) (305, 0)" 0 quiet 800 600]
    heap_updatePoints_nth [of "moving_state (405, 301) (3, 0) (405, 301)" 0 quiet 800 600]
  by (simp add: tick_point_def brownian_kick_def constrainToOriginalPosition_def update_point_def
      integrate_def constrainToScreen_def applyFriction_def Let_def update_userData_def sqrt_10000
      BOUNCE_FACTOR_def FRICTION_def MAX_DISTANCE_def RETURN_FORCE_def BROWNIAN_STRENGTH_def
      quiet_def loud_def)

section \<open>Points stay on the screen (C10)\<close>

lemma constrainToScreen_bounds:
  assumes "0 \<le> hw" "0 \<le> hh"
  shows "- hw \<le> position_x (constrainToScreen m hw hh bf) \<and> position_x (constrainToScreen m hw hh bf) \<le> hw \<and>
         - hh \<le> position_y (constrainToScreen m hw hh bf) \<and> position_y (constrainToScreen m hw hh bf) \<le> hh"
  using assms by (simp add: constrainToScreen_def Let_def)

lemma update_point_bounds:
  assumes "0 \<le> sw" "0 \<le> sh"
  shows "- (sw / 2) \<le> position_x (update_point m sw sh) \<and> position_x (update_point m sw sh) \<le> sw / 2 \<and>
         - (sh / 2) \<le> position_y (update_point m sw sh) \<and> position_y (update_point m sw sh) \<le> sh / 2"
  using constrainToScreen_bounds [of "sw / 2" "sh / 2" "integrate m" BOUNCE_FACTOR] assms
  by (simp add: update_point_def applyFriction_def)

text \<open>
  Claim C10. After \<^verbatim>\<open>updatePoints(screenWidth, screenHeight)\<close>, with screen
  sizes that are not negative, every point of the list lies in the rectangle
  \<open>-screenWidth/2 \<le> x \<le> screenWidth/2\<close>, \<open>-screenHeight/2 \<le> y \<le> screenHeight/2\<close>,
  whatever its position and velocity were and whatever the random source answers.
\<close>

theorem updatePoints_within_screen:
  assumes "0 \<le> screenWidth" "0 \<le> screenHeight" "live_inv s" "p \<in> set (points s)"
  shows "- (screenWidth / 2) \<le> position_x (heap (updatePoints s rnd screenWidth screenHeight) p) \<and>
         position_x (heap (updatePoints s rnd screenWidth screenHeight) p) \<le> screenWidth / 2 \<and>
         - (screenHeight / 2) \<le> position_y (heap (updatePoints s rnd screenWidth screenHeight) p) \<and>
         position_y (heap (updatePoints s rnd screenWidth screenHeight) p) \<le> screenHeight / 2"
  unfolding heap_updatePoints
  by (rule for_each_all [where g = "\<lambda>point. update_point point screenWidth screenHeight"])
     (use assms update_point_bounds in blast)+

text \<open>An instance: a fast point far outside a screen of 800 by 600, under the loud random source.\<close>

theorem updatePoints_within_screen_witness:
  "- (800 / 2) \<le> position_x (heap (updatePoints (moving_state (1000, - 1000) (50, - 70) (0, 0)) loud 800 600) 0) \<and>
   position_x (heap (updatePoints (moving_state (1000, - 1000) (50, - 70) (0, 0)) loud 800 600) 0) \<le> 800 / 2 \<and>
   - (600 / 2) \<le> position_y (heap (updatePoints (moving_state (1000, - 1000) (50, - 70) (0, 0)) loud 800 600) 0) \<and>
   position_y (heap (updatePoints (moving_state (1000, - 1000) (50, - 70) (0, 0)) loud 800 600) 0) \<le> 600 / 2"
  using updatePoints_within_screen [of 800 600 "moving_state (1000, - 1000) (50, - 70) (0, 0)" 0 loud]
  by simp

section \<open>Repulsion (C5)\<close>

lemma unit_vector:
  fixes dx dy :: real
  assumes "0 < dx * dx + dy * dy"
  shows "(dx / sqrt (dx * dx + dy * dy)) * (dx / sqrt (dx * dx + dy * dy)) +
         (dy / sqrt (dx * dx + dy * dy)) * (dy / sqrt (dx * dx + dy * dy)) = 1"
proof -
  define q where "q = dx * dx + dy * dy"
  define r where "r = sqrt q"
  have q: "0 < q" using assms by (simp only: q_def)
  then have rr: "r * r = q" by (simp add: r_def)
  have "(dx / r) * (dx / r) + (dy / r) * (dy / r) = (dx * dx + dy * dy) / (r * r)"
    by (simp add: add_divide_distrib)
  also have "\<dots> = q / q" by (simp only: rr q_def)
  also have "\<dots> = 1" using q by simp
  finally show ?thesis by (simp only: r_def q_def)
qed

lemma sqrt_25: "sqrt 25 = 5"
  by (rule real_sqrt_unique) simp_all

text \<open>
  Claim C5. Let \<open>p\<close> be a point of the list other than \<open>newPoint\<close>, \<open>(dx, dy)\<close> the
  vector from \<open>newPoint\<close> to \<open>p\<close> and \<open>distance\<close> its length. When the squared distance
  is strictly between 0 and \<open>RADIUS\<^sup>2\<close>, \<^verbatim>\<open>applyRepulsion(newPoint)\<close> adds to the
  velocity of \<open>p\<close> the vector \<open>(dx / distance, dy / distance)\<close>, which has length 1,
  times \<open>force = STRENGTH * (1 - distance / RADIUS)\<close>, which is positive. When the
  two points coincide, \<open>p\<close> is left as it is: no division takes place. Positions
  and \<open>newPoint\<close> itself are never changed.
\<close>

theorem repulsion_impulse:
  fixes s :: state and newPoint p :: ref
  defines "dx \<equiv> position_x (heap s p) - position_x (heap s newPoint)"
    and "dy \<equiv> position_y (heap s p) - position_y (heap s newPoint)"
  defines "distance \<equiv> sqrt (dx * dx + dy * dy)"
  defines "force \<equiv> REPULSION_STRENGTH * (1 - distance / REPULSION_RADIUS)"
  assumes "live_inv s" "p \<in> set (points s)" "p \<noteq> newPoint" "userData (heap s p) = Some u"
  shows "(0 < dx * dx + dy * dy \<and> dx * dx + dy * dy < REPULSION_RADIUS * REPULSION_RADIUS \<longrightarrow>
            userData (heap (applyRepulsion s newPoint) p) =
              Some (u\<lparr>vx := vx u + dx / distance * force, vy := vy u + dy / distance * force\<rparr>) \<and>
            (dx / distance) * (dx / distance) + (dy / distance) * (dy / distance) = 1 \<and> 0 < force) \<and>
         (dx * dx + dy * dy = 0 \<longrightarrow> heap (applyRepulsion s newPoint) p = heap s p) \<and>
         position_x (heap (applyRepulsion s newPoint) p) = position_x (heap s p) \<and>
         position_y (heap (applyRepulsion s newPoint) p) = position_y (heap s p) \<and>
         heap (applyRepulsion s newPoint) newPoint = heap s newPoint"
proof -
  have dd: "distinct (points s)" using assms by (simp add: live_inv_def)
  have e: "heap (applyRepulsion s newPoint) p =
      applyRepulsionForce (heap s p) (heap s newPoint) REPULSION_STRENGTH REPULSION_RADIUS"
    using dd assms by (simp add: heap_applyRepulsion repulse_fold_distinct)
  have n: "heap (applyRepulsion s newPoint) newPoint = heap s newPoint"
    by (simp add: heap_applyRepulsion repulse_fold_new)
  have f: "0 < force" if "0 < dx * dx + dy * dy" "dx * dx + dy * dy < REPULSION_RADIUS * REPULSION_RADIUS"
  proof -
    have "sqrt (dx * dx + dy * dy) < sqrt (REPULSION_RADIUS * REPULSION_RADIUS)"
      using that by (simp only: real_sqrt_less_iff)
    then have "distance < REPULSION_RADIUS" by (simp add: distance_def REPULSION_RADIUS_def)
    then show ?thesis by (simp add: force_def REPULSION_RADIUS_def REPULSION_STRENGTH_def)
  qed
  show ?thesis
    using unit_vector [of dx dy] f assms(8)
    unfolding e n
    by (simp add: applyRepulsionForce_def Let_def dx_def dy_def distance_def force_def update_userData_def)
qed

text \<open>
  Two instances: a point at distance 5 from the new point, and a point at the
  same coordinates as the new point.
\<close>

theorem repulsion_impulse_witness:
  "userData (heap (applyRepulsion (state_of [(0, 0), (3, 4)]) 0) 1) =
     Some \<lparr>vx = 57 / 20, vy = 19 / 5, origX = 3, origY = 4\<rparr> \<and>
   heap (applyRepulsion (state_of [(1, 1), (1, 1)]) 0) 1 = heap (state_of [(1, 1), (1, 1)]) 1"
proof -
  have a: "userData (heap (applyRepulsion (state_of [(0, 0), (3, 4)]) 0) (Suc 0)) =
     Some \<lparr>vx = 57 / 20, vy = 19 / 5, origX = 3, origY = 4\<rparr>"
    using repulsion_impulse [of "state_of [(0, 0), (3, 4)]" "Suc 0" 0
        "\<lparr>vx = 0, vy = 0, origX = 3, origY = 4\<rparr>"]
    by (simp add: live_inv_state_of store_of_nth sqrt_25 REPULSION_RADIUS_def REPULSION_STRENGTH_def upt_rec)
  have b: "heap (applyRepulsion (state_of [(1, 1), (1, 1)]) 0) (Suc 0) = heap (state_of [(1, 1), (1, 1)]) (Suc 0)"
    using repulsion_impulse [of "state_of [(1, 1), (1, 1)]" "Suc 0" 0
        "\<lparr>vx = 0, vy = 0, origX = 1, origY = 1\<rparr>"]
    by (simp add: live_inv_state_of store_of_nth upt_rec)
  from a b show ?thesis by simp
qed

section \<open>Drawables\<close>

lemma foldl_drawTriangle_meshes:
  "map line (meshes (foldl drawTriangle s ts)) = map line (meshes s) @ [next_line s..<next_line s + length ts] \<and>
   map triangle (meshes (foldl drawTriangle s ts)) = map triangle (meshes s) @ ts \<and>
   next_line (foldl drawTriangle s ts) = next_line s + length ts \<and>
   scene (foldl drawTriangle s ts) = scene s @ map LineSegments [next_line s..<next_line s + length ts] \<and>
   disposed (foldl drawTriangle s ts) = disposed s"
proof (induction ts arbitrary: s)
  case Nil
  then show ?case by simp
next
  case (Cons t ts)
  have u: "[next_line s..<next_line s + length (t # ts)] = next_line s # [Suc (next_line s)..<Suc (next_line s) + length ts]"
    by (simp add: upt_rec)
  show ?case
    unfolding u using Cons.IH [of "drawTriangle s t"]
    by (simp add: drawTriangle_def Let_def)
qed

lemma set_clear_scene:
  "set (foldl (\<lambda>sc meshObj. removeAll (LineSegments (line meshObj)) sc) sc ms) =
     set sc - LineSegments ` line ` set ms"
  by (induction ms arbitrary: sc) auto

lemma clearTriangleMeshes_simps [simp]:
  "meshes (clearTriangleMeshes s) = []" "disposed (clearTriangleMeshes s) = disposed s @ map line (meshes s)"
  "heap (clearTriangleMeshes s) = heap s" "points (clearTriangleMeshes s) = points s"
  "triangles (clearTriangleMeshes s) = triangles s" "next_line (clearTriangleMeshes s) = next_line s"
  "set (scene (clearTriangleMeshes s)) = set (scene s) - LineSegments ` line ` set (meshes s)"
  by (simp_all add: clearTriangleMeshes_def set_clear_scene)

lemma calculateAndDraw_meshes:
  "map triangle (meshes (calculateAndDraw s)) =
     (if 3 \<le> length (points s) then findDelaunayTriangles (heap s) (points s) else [])"
  "map line (meshes (calculateAndDraw s)) =
     [next_line s..<next_line s + length (meshes (calculateAndDraw s))]"
  "next_line (calculateAndDraw s) = next_line s + length (meshes (calculateAndDraw s))"
  "disposed (calculateAndDraw s) = disposed s @ map line (meshes s)"
  "set (scene (calculateAndDraw s)) =
     (set (scene s) - LineSegments ` line ` set (meshes s)) \<union>
     LineSegments ` {next_line s..<next_line s + length (meshes (calculateAndDraw s))}"
proof -
  let ?s2 = "(clearTriangleMeshes s)\<lparr>triangles := findDelaunayTriangles (heap s) (points s)\<rparr>"
  let ?ts = "findDelaunayTriangles (heap s) (points s)"
  have c: "calculateAndDraw s = (if 3 \<le> length (points s) then foldl drawTriangle ?s2 ?ts else clearTriangleMeshes s)"
    by (simp add: calculateAndDraw_def Let_def)
  note f = foldl_drawTriangle_meshes [of ?s2 ?ts]
  have len: "length (meshes (foldl drawTriangle ?s2 ?ts)) = length ?ts"
    using f [THEN conjunct1, THEN arg_cong, of length] by simp
  show "map triangle (meshes (calculateAndDraw s)) =
     (if 3 \<le> length (points s) then findDelaunayTriangles (heap s) (points s) else [])"
    using f by (simp add: c)
  show "map line (meshes (calculateAndDraw s)) =
     [next_line s..<next_line s + length (meshes (calculateAndDraw s))]"
    using f len by (simp add: c)
  show "next_line (calculateAndDraw s) = next_line s + length (meshes (calculateAndDraw s))"
    using f len by (simp add: c)
  show "disposed (calculateAndDraw s) = disposed s @ map line (meshes s)"
    using f by (simp add: c)
  show "set (scene (calculateAndDraw s)) =
     (set (scene s) - LineSegments ` line ` set (meshes s)) \<union>
     LineSegments ` {next_line s..<next_line s + length (meshes (calculateAndDraw s))}"
    using f len by (simp add: c)
qed

lemma addPoint_drawables [simp]:
  "meshes (snd (addPoint s w h x y)) = meshes s" "next_line (snd (addPoint s w h x y)) = next_line s"
  "triangles (snd (addPoint s w h x y)) = triangles s"
  by (simp_all add: addPoint_def Let_def removePoint_def split: list.splits)

lemma updateTrianglePositions_drawables [simp]:
  "map line (meshes (updateTrianglePositions s)) = map line (meshes s)"
  "map triangle (meshes (updateTrianglePositions s)) = map triangle (meshes s)"
  "map material (meshes (updateTrianglePositions s)) = map material (meshes s)"
  "map geometry (meshes (updateTrianglePositions s)) =
     map (\<lambda>meshObj. edge_positions (getTriangleVertices (heap s) (triangle meshObj))) (meshes s)"
  "next_line (updateTrianglePositions s) = next_line s" "scene (updateTrianglePositions s) = scene s"
  "disposed (updateTrianglePositions s) = disposed s"
  by (simp_all add: updateTrianglePositions_def)

lemma updatePoints_cases:
  "\<exists>h. updatePoints s rnd sw sh = s\<lparr>heap := h\<rparr> \<or>
       updatePoints s rnd sw sh = updateTrianglePositions (s\<lparr>heap := h\<rparr>)"
  by (auto simp add: updatePoints_def Let_def applyPositionConstraints_def applyBrownianMotion_def
      split: prod.splits)

lemma updatePoints_drawables [simp]:
  "map line (meshes (updatePoints s rnd sw sh)) = map line (meshes s)"
  "map triangle (meshes (updatePoints s rnd sw sh)) = map triangle (meshes s)"
  "map material (meshes (updatePoints s rnd sw sh)) = map material (meshes s)"
  "next_line (updatePoints s rnd sw sh) = next_line s" "scene (updatePoints s rnd sw sh) = scene s"
  "disposed (updatePoints s rnd sw sh) = disposed s" "triangles (updatePoints s rnd sw sh) = triangles s"
proof -
  obtain h where "updatePoints s rnd sw sh = s\<lparr>heap := h\<rparr> \<or>
       updatePoints s rnd sw sh = updateTrianglePositions (s\<lparr>heap := h\<rparr>)"
    using updatePoints_cases by blast
  then show
    "map line (meshes (updatePoints s rnd sw sh)) = map line (meshes s)"
    "map triangle (meshes (updatePoints s rnd sw sh)) = map triangle (meshes s)"
    "map material (meshes (updatePoints s rnd sw sh)) = map material (meshes s)"
    "next_line (updatePoints s rnd sw sh) = next_line s" "scene (updatePoints s rnd sw sh) = scene s"
    "disposed (updatePoints s rnd sw sh) = disposed s" "triangles (updatePoints s rnd sw sh) = triangles s"
    by auto
qed

lemma applyRepulsion_cases:
  "\<exists>h. applyRepulsion s newPoint = s\<lparr>lastAddedPoint := Some newPoint, heap := h\<rparr> \<and>
         \<not> (triangulation s \<and> 3 \<le> length (points s)) \<or>
       applyRepulsion s newPoint = calculateAndDraw (s\<lparr>lastAddedPoint := Some newPoint, heap := h\<rparr>)"
  by (auto simp add: applyRepulsion_def Let_def)

lemma drawables_inv_calculateAndDraw:
  assumes "length (points s) < 3 \<longrightarrow> triangles s = []"
  shows "drawables_inv (calculateAndDraw s)"
proof -
  have "line m < next_line (calculateAndDraw s)" if "m \<in> set (meshes (calculateAndDraw s))" for m
  proof -
    have "line m \<in> set (map line (meshes (calculateAndDraw s)))" using that by simp
    then show ?thesis by (simp only: calculateAndDraw_meshes(2,3)) simp
  qed
  moreover have "triangles (calculateAndDraw s) = []" if "length (points (calculateAndDraw s)) < 3"
    using that assms by (simp add: triangles_calculateAndDraw)
  ultimately show ?thesis by (simp add: drawables_inv_def)
qed

lemma drawables_inv_line:
  "drawables_inv s \<Longrightarrow> m \<in> set (meshes s) \<Longrightarrow> line m < next_line s"
  by (simp add: drawables_inv_def)

lemma drawables_inv_addPoint:
  assumes "drawables_inv s"
  shows "drawables_inv (snd (addPoint s w h x y))"
proof -
  have "length (points s) \<le> length (points (snd (addPoint s w h x y)))"
    by (auto simp: addPoint_points MAX_POINTS_def)
  then show ?thesis using assms by (auto simp: drawables_inv_def)
qed

lemma drawables_inv_updatePoints:
  assumes "drawables_inv s"
  shows "drawables_inv (updatePoints s rnd sw sh)"
proof -
  have "line m < next_line s" if "m \<in> set (meshes (updatePoints s rnd sw sh))" for m
  proof -
    have "line m \<in> line ` set (meshes (updatePoints s rnd sw sh))" using that by (rule imageI)
    then have "line m \<in> set (map line (meshes (updatePoints s rnd sw sh)))" by (simp only: set_map)
    then have "line m \<in> set (map line (meshes s))" by (simp only: updatePoints_drawables)
    then show ?thesis using assms by (auto simp: drawables_inv_def)
  qed
  then show ?thesis using assms by (simp add: drawables_inv_def)
qed

lemma drawables_inv_applyRepulsion:
  assumes "drawables_inv s"
  shows "drawables_inv (applyRepulsion s newPoint)"
proof -
  obtain h where "applyRepulsion s newPoint = s\<lparr>lastAddedPoint := Some newPoint, heap := h\<rparr> \<and>
         \<not> (triangulation s \<and> 3 \<le> length (points s)) \<or>
       applyRepulsion s newPoint = calculateAndDraw (s\<lparr>lastAddedPoint := Some newPoint, heap := h\<rparr>)"
    using applyRepulsion_cases by blast
  then show ?thesis
  proof
    assume "applyRepulsion s newPoint = s\<lparr>lastAddedPoint := Some newPoint, heap := h\<rparr> \<and>
         \<not> (triangulation s \<and> 3 \<le> length (points s))"
    then show ?thesis using assms by (simp add: drawables_inv_def)
  next
    assume a: "applyRepulsion s newPoint = calculateAndDraw (s\<lparr>lastAddedPoint := Some newPoint, heap := h\<rparr>)"
    show ?thesis
      unfolding a using assms by (intro drawables_inv_calculateAndDraw) (simp add: drawables_inv_def)
  qed
qed

lemma reachable_drawables_inv: "reachable s \<Longrightarrow> drawables_inv s"
proof (induction rule: reachable.induct)
  case init
  then show ?case by (simp add: drawables_inv_def initial_state_def)
next
  case (add s innerWidth innerHeight x y)
  then show ?case by (simp add: drawables_inv_addPoint)
next
  case (repulse s newPoint)
  then show ?case by (simp add: drawables_inv_applyRepulsion)
next
  case (tick s rnd screenWidth screenHeight)
  then show ?case by (simp add: drawables_inv_updatePoints)
next
  case (redraw s)
  then show ?case by (intro drawables_inv_calculateAndDraw) (simp add: drawables_inv_def)
qed

lemma reachable_addPoints: "reachable s \<Longrightarrow> reachable (addPoints s calls)"
proof (induction calls arbitrary: s)
  case Nil
  then show ?case by simp
next
  case (Cons c calls)
  obtain w h x y where c: "c = (w, h, x, y)" by (cases c) auto
  show ?case using Cons by (simp add: c reachable.add)
qed

lemma findDelaunayTriangles_3: "findDelaunayTriangles h [a, b, c] = [Triangle a b c]"
  by (simp add: findDelaunayTriangles_def candidate_def upt_rec)

lemma addPoints_drawables [simp]:
  "meshes (addPoints s calls) = meshes s" "next_line (addPoints s calls) = next_line s"
  "triangles (addPoints s calls) = triangles s"
  by (induction calls arbitrary: s; auto)+

lemma three_points_simps:
  "points three_points = [0, 1, 2]" "reachable three_points" "meshes three_points = []"
  "next_line three_points = 0" "triangles three_points = []"
proof -
  have i: "points initial_state = last_refs (next_ref initial_state)"
    by (simp add: initial_state_def last_refs_def)
  have "points three_points = last_refs (next_ref initial_state +
          length [(800 :: real, 600 :: real, 100 :: real, 100 :: real), (800, 600, 200, 100), (800, 600, 100, 200)])"
    unfolding three_points_def by (rule addPoints_inv [OF i, THEN conjunct1])
  also have "\<dots> = [0, 1, 2]" by (simp add: initial_state_def last_refs_upt MAX_POINTS_def upt_rec)
  finally show "points three_points = [0, 1, 2]" .
  show "reachable three_points"
    unfolding three_points_def by (intro reachable_addPoints reachable.init)
  show "meshes three_points = []" "next_line three_points = 0" "triangles three_points = []"
    by (simp_all add: three_points_def initial_state_def)
qed

lemma foldl_removePoint_frame:
  "triangles (foldl removePoint s ps) = triangles s \<and> meshes (foldl removePoint s ps) = meshes s"
  by (induction ps arbitrary: s) (simp_all add: removePoint_def)

lemma PointManager_dispose_simps [simp]:
  "points (PointManager_dispose s) = []" "triangles (PointManager_dispose s) = triangles s"
  by (simp_all add: PointManager_dispose_def foldl_removePoint_frame)

section \<open>The full pipeline (C6)\<close>

text \<open>
  Claim C6, as amended. \<^verbatim>\<open>calculateAndDraw\<close> first empties the list of drawables
  and disposes every one of them. With three points or more it then replaces the
  triangle list by the result of \<^verbatim>\<open>findDelaunayTriangles\<close> and makes one new
  drawable for each of its triangles, in order; with fewer points it makes no
  drawable and leaves the triangle list as it is. In a reachable state the old
  drawables are neither in the scene nor among the new drawables afterwards, and
  with fewer than three points the triangle list is empty afterwards.
\<close>

theorem calculateAndDraw_rebuild:
  "meshes (clearTriangleMeshes s) = [] \<and>
   set (map line (meshes s)) \<subseteq> set (disposed (calculateAndDraw s)) \<and>
   triangles (calculateAndDraw s) =
     (if 3 \<le> length (points s) then findDelaunayTriangles (heap s) (points s) else triangles s) \<and>
   map triangle (meshes (calculateAndDraw s)) =
     (if 3 \<le> length (points s) then findDelaunayTriangles (heap s) (points s) else []) \<and>
   map line (meshes (calculateAndDraw s)) =
     [next_line s..<next_line s + length (meshes (calculateAndDraw s))] \<and>
   (reachable s \<longrightarrow>
      (\<forall>m \<in> set (meshes s). LineSegments (line m) \<notin> set (scene (calculateAndDraw s)) \<and>
                            line m \<notin> set (map line (meshes (calculateAndDraw s)))) \<and>
      (length (points s) < 3 \<longrightarrow> triangles (calculateAndDraw s) = []))"
proof -
  have r: "LineSegments (line m) \<notin> set (scene (calculateAndDraw s)) \<and>
           line m \<notin> set (map line (meshes (calculateAndDraw s)))"
    if "reachable s" "m \<in> set (meshes s)" for m
  proof -
    have "line m < next_line s"
      using that by (intro drawables_inv_line reachable_drawables_inv)
    moreover have "LineSegments (line m) \<in> LineSegments ` line ` set (meshes s)"
      using that(2) by blast
    ultimately show ?thesis
      unfolding calculateAndDraw_meshes(2,5) by auto
  qed
  have t: "triangles (calculateAndDraw s) = []" if "reachable s" "length (points s) < 3"
    using reachable_drawables_inv [OF that(1)] that(2)
    by (simp add: triangles_calculateAndDraw drawables_inv_def)
  show ?thesis
    using r t by (simp add: calculateAndDraw_meshes triangles_calculateAndDraw)
qed

text \<open>
  An instance: the first and the second \<^verbatim>\<open>calculateAndDraw\<close> after three points
  were added, and \<^verbatim>\<open>calculateAndDraw\<close> at the start.
\<close>

theorem calculateAndDraw_rebuild_witness:
  "triangles (calculateAndDraw three_points) = [Triangle 0 1 2] \<and>
   map line (meshes (calculateAndDraw three_points)) = [0] \<and>
   map line (meshes (calculateAndDraw (calculateAndDraw three_points))) = [1] \<and>
   LineSegments 0 \<notin> set (scene (calculateAndDraw (calculateAndDraw three_points))) \<and>
   triangles (calculateAndDraw initial_state) = []"
proof -
  let ?s = "calculateAndDraw three_points"
  note a = calculateAndDraw_rebuild [of three_points]
  note b = calculateAndDraw_rebuild [of ?s]
  note c = calculateAndDraw_rebuild [of initial_state]
  have t: "triangles ?s = [Triangle 0 1 2]" "map triangle (meshes ?s) = [Triangle 0 1 2]"
    using a by (simp_all add: three_points_simps findDelaunayTriangles_3)
  have "length (map triangle (meshes ?s)) = length [Triangle 0 1 2]" by (simp only: t(2))
  then have l: "length (meshes ?s) = 1" by simp
  have m: "map line (meshes ?s) = [0]"
    using a l by (simp add: three_points_simps)
  have n: "next_line ?s = 1" using l by (simp add: calculateAndDraw_meshes(3) three_points_simps)
  have r: "reachable ?s" by (intro reachable.redraw three_points_simps)
  have t2: "map triangle (meshes (calculateAndDraw ?s)) = [Triangle 0 1 2]"
    using b by (simp add: three_points_simps findDelaunayTriangles_3)
  have "length (map triangle (meshes (calculateAndDraw ?s))) = length [Triangle 0 1 2]"
    by (simp only: t2)
  then have l2: "length (meshes (calculateAndDraw ?s)) = 1" by simp
  have m2: "map line (meshes (calculateAndDraw ?s)) = [1]"
    using b l2 n by simp
  obtain mo where mo: "mo \<in> set (meshes ?s)" "line mo = 0"
    using m by (cases "meshes ?s") auto
  have "LineSegments (line mo) \<notin> set (scene (calculateAndDraw ?s))"
    using b r mo(1) by blast
  then have s0: "LineSegments 0 \<notin> set (scene (calculateAndDraw ?s))"
    using mo(2) by simp
  have i: "triangles (calculateAndDraw initial_state) = []"
    using c by (simp add: reachable.init initial_state_def)
  from t(1) m m2 s0 i show ?thesis by blast
qed

text \<open>
  Claim C6 as it is written says the triangle list is emptied when there are fewer
  than three points. After \<^verbatim>\<open>PointManager.dispose()\<close> the point list is empty,
  and \<^verbatim>\<open>calculateAndDraw\<close> leaves the triangle computed before in the list.
\<close>

theorem calculateAndDraw_stale_counterexample:
  "length (points (PointManager_dispose (calculateAndDraw three_points))) < 3 \<and>
   triangles (calculateAndDraw (PointManager_dispose (calculateAndDraw three_points))) = [Triangle 0 1 2]"
  by (simp add: triangles_calculateAndDraw three_points_simps findDelaunayTriangles_3)

section \<open>Position updates keep the triangles (C7)\<close>

text \<open>
  Claim C7. \<^verbatim>\<open>updatePoints\<close> followed by \<^verbatim>\<open>updateTrianglePositions\<close> (and each of
  them alone) leaves the triangle list, the number of drawables, the triangle,
  the line object and the material of each drawable, the scene, the disposed
  drawables and the numbering of new line objects as they were: no drawable is
  made. \<^verbatim>\<open>updateTrianglePositions\<close> sets the coordinates of each drawable to
  those of its triangle's points in the store.
\<close>

theorem position_update_keeps_triangles:
  "triangles (updateTrianglePositions (updatePoints s rnd screenWidth screenHeight)) = triangles s \<and>
   map triangle (meshes (updateTrianglePositions (updatePoints s rnd screenWidth screenHeight))) =
     map triangle (meshes s) \<and>
   map line (meshes (updateTrianglePositions (updatePoints s rnd screenWidth screenHeight))) =
     map line (meshes s) \<and>
   map material (meshes (updateTrianglePositions (updatePoints s rnd screenWidth screenHeight))) =
     map material (meshes s) \<and>
   length (meshes (updateTrianglePositions (updatePoints s rnd screenWidth screenHeight))) =
     length (meshes s) \<and>
   next_line (updateTrianglePositions (updatePoints s rnd screenWidth screenHeight)) = next_line s \<and>
   scene (updateTrianglePositions (updatePoints s rnd screenWidth screenHeight)) = scene s \<and>
   disposed (updateTrianglePositions (updatePoints s rnd screenWidth screenHeight)) = disposed s \<and>
   points (updateTrianglePositions (updatePoints s rnd screenWidth screenHeight)) = points s \<and>
   triangles (updatePoints s rnd screenWidth screenHeight) = triangles s \<and>
   map triangle (meshes (updatePoints s rnd screenWidth screenHeight)) = map triangle (meshes s) \<and>
   map line (meshes (updatePoints s rnd screenWidth screenHeight)) = map line (meshes s) \<and>
   map geometry (meshes (updateTrianglePositions s)) =
     map (\<lambda>meshObj. edge_positions (getTriangleVertices (heap s) (triangle meshObj))) (meshes s)"
proof -
  have "length (map line (meshes (updateTrianglePositions (updatePoints s rnd screenWidth screenHeight)))) =
        length (map line (meshes s))"
    by (simp only: updateTrianglePositions_drawables updatePoints_drawables)
  then have "length (meshes (updateTrianglePositions (updatePoints s rnd screenWidth screenHeight))) =
     length (meshes s)"
    by (simp only: length_map)
  then show ?thesis by simp
qed

section \<open>The colour seed (C9)\<close>

lemma getColorSeed_xor_fold: "getColorSeed h t = xor_fold (vertex_coordinates h t)"
  by (simp add: getColorSeed_def xor_fold_def vertex_coordinates_def colorSeedMultipliers_def Let_def)

lemma foldl_drawTriangle_material:
  "map material (meshes (foldl drawTriangle s ts)) =
     map material (meshes s) @ map (getColorSeed (heap s)) ts"
proof (induction ts arbitrary: s)
  case Nil
  then show ?case by simp
next
  case (Cons t ts)
  have "heap (drawTriangle s t) = heap s" by (simp add: drawTriangle_def Let_def)
  then show ?case using Cons.IH [of "drawTriangle s t"] by (simp add: drawTriangle_def Let_def)
qed

lemma calculateAndDraw_material:
  "map material (meshes (calculateAndDraw s)) =
     map (getColorSeed (heap s)) (map triangle (meshes (calculateAndDraw s)))"
proof -
  have "map material (meshes (calculateAndDraw s)) =
     (if 3 \<le> length (points s) then map (getColorSeed (heap s)) (findDelaunayTriangles (heap s) (points s)) else [])"
    by (simp add: calculateAndDraw_def Let_def foldl_drawTriangle_material)
  then show ?thesis by (simp add: calculateAndDraw_meshes(1))
qed

text \<open>
  Claim C9, as amended. \<^verbatim>\<open>getColorSeed\<close> is the exclusive-or of six terms, the
  \<open>x\<close> and \<open>y\<close> of each vertex multiplied by its constant and floored, read as an
  unsigned number below \<open>2\<^sup>3\<^sup>2\<close>; it is a function of the six coordinates alone.
  The six constants are odd and above \<open>10\<^sup>7\<close>; the first five are distinct and the
  sixth (for \<open>p3.y\<close>) is the first (for \<open>p1.x\<close>) again. \<^verbatim>\<open>calculateAndDraw\<close>
  leaves the seed of every triangle as it is and gives each new drawable the seed
  of its triangle.
\<close>

theorem getColorSeed_deterministic:
  "getColorSeed h t = xor_fold (vertex_coordinates h t) \<and>
   getColorSeed h t < 2 ^ 32 \<and>
   length colorSeedMultipliers = 6 \<and>
   list_all (\<lambda>c. odd c \<and> 10000000 < c) colorSeedMultipliers \<and>
   distinct (butlast colorSeedMultipliers) \<and>
   last colorSeedMultipliers = hd colorSeedMultipliers \<and>
   getColorSeed (heap (calculateAndDraw s)) t = getColorSeed (heap s) t \<and>
   map material (meshes (calculateAndDraw s)) =
     map (getColorSeed (heap s)) (map triangle (meshes (calculateAndDraw s)))"
proof -
  have "unat w < 2 ^ 32" for w :: "32 word"
    using unsigned_less [of w, where ?'a = nat] by simp
  then have "getColorSeed h t < 2 ^ 32"
    unfolding getColorSeed_def Let_def by blast
  then show ?thesis
    by (simp add: getColorSeed_xor_fold [symmetric] calculateAndDraw_material)
       (simp add: colorSeedMultipliers_def)
qed

text \<open>
  Claim C9 as it is written says the six constants are distinct. The constant of
  \<open>p1.x\<close> is that of \<open>p3.y\<close>: the seed cannot tell \<open>p1.x = 1\<close> from \<open>p3.y = 1\<close>, and
  both together cancel.
\<close>

theorem getColorSeed_shared_constant_counterexample:
  "\<not> distinct colorSeedMultipliers \<and>
   getColorSeed (store_of [(1, 0), (0, 0), (0, 0)]) (Triangle 0 1 2) = 73856093 \<and>
   getColorSeed (store_of [(0, 0), (0, 0), (0, 1)]) (Triangle 0 1 2) = 73856093 \<and>
   getColorSeed (store_of [(1, 0), (0, 0), (0, 1)]) (Triangle 0 1 2) = 0"
  by (simp add: colorSeedMultipliers_def getColorSeed_def store_of_3)

section \<open>Return to the origin (C8)\<close>




lemma quiet_ticks_simps [simp]:
  "quiet_ticks 0 s sw sh = s"
  "quiet_ticks (Suc n) s sw sh = updatePoints (quiet_ticks n s sw sh) quiet sw sh"
  by (simp_all add: quiet_ticks_def)

lemma points_quiet_ticks [simp]: "points (quiet_ticks n s sw sh) = points s"
  by (induction n) simp_all

lemma live_inv_quiet_ticks: "live_inv s \<Longrightarrow> live_inv (quiet_ticks n s sw sh)"
  by (induction n) (simp_all add: live_inv_updatePoints)








lemma funpow_Suc_eval: "(radial_step ^^ (n + 1)) x = radial_step ((radial_step ^^ n) x)"
  by simp


lemma sqrt_225: "sqrt 225 = 15"
  by (rule real_sqrt_unique) simp_all





end
